theory Spec2Isabelle
  imports Main "HOL-Library.Word" "HOL-Library.Multiset"
begin

unbundle bit_operations_syntax

section \<open>Data model\<close>

text \<open>
  A \<open>Uint8Array\<close> is a list of 8-bit words.  JavaScript numbers that the token codec
  handles are integral (versions, ids, second and millisecond counts, chunk indices) and
  stay far below \<open>2^53\<close>, so they are modelled as \<open>nat\<close> or \<open>int\<close>; conversions into a
  typed array wrap modulo the width, as \<open>ToUint8\<close> and \<open>ToUint32\<close> do on integers.
\<close>

type_synonym byte = "8 word"
type_synonym bytes = "byte list"

text \<open>\<open>types.ts\<close>: \<open>KeyMaterial = string | Uint8Array\<close>.\<close>

datatype KeyMaterial = Passphrase string | RawKey bytes

text \<open>
  \<open>types.ts\<close>: \<open>TokenMetadata\<close>.  Algorithm and compression are the string ids the
  lookup tables of \<open>metadata.ts\<close> are keyed by; the two optional fields are options.
\<close>

record TokenMetadata =
  version :: nat
  algorithm :: string
  compression :: string
  timestamp :: "int option"
  ttl :: "int option"

text \<open>
  Every \<open>throw new Error(...)\<close> of the modelled sources is one constructor; the comment
  gives the message.  The wrappers carry the wrapped error where the source interpolates
  \<open>error.message\<close>.
\<close>

datatype error =
    UnsupportedAlgorithm string      \<comment> \<open>Unsupported algorithm: ...\<close>
  | UnsupportedCompression string    \<comment> \<open>Unsupported compression: ...\<close>
  | MetadataTooShort                 \<comment> \<open>Invalid metadata: too short\<close>
  | UnknownAlgorithmId nat           \<comment> \<open>Unknown algorithm ID: ...\<close>
  | UnknownCompressionId nat         \<comment> \<open>Unknown compression ID: ...\<close>
  | MissingTimestampBytes            \<comment> \<open>Invalid metadata: missing timestamp bytes\<close>
  | MissingTTLBytes                  \<comment> \<open>Invalid metadata: missing TTL bytes\<close>
  | UnsupportedVersion nat           \<comment> \<open>Unsupported token version: ... Supported versions: 1\<close>
  | InvalidBase64                    \<comment> \<open>Invalid Base64 string: ...\<close>
  | NoRandomSource                   \<comment> \<open>No secure random number generator available\<close>
  | RangeError                       \<comment> \<open>the engine's error for a call with too many arguments\<close>
  | KeyLengthError                   \<comment> \<open>Key must be exactly 32 bytes (256 bits)\<close>
  | EmptyPassword                    \<comment> \<open>Password cannot be empty\<close>
  | SaltRequired                     \<comment> \<open>Salt is required for password-based decryption\<close>
  | InvalidIVLength nat              \<comment> \<open>Invalid IV length: expected 12, got ...\<close>
  | AuthenticationFailed             \<comment> \<open>Decryption failed: invalid key or corrupted data\<close>
  | NoCryptoAvailable                \<comment> \<open>No crypto implementation available\<close>
  | UnsupportedCompressionAlgorithm string  \<comment> \<open>Unsupported compression algorithm: ...\<close>
  | LZDecompressionFailed            \<comment> \<open>LZ-String decompression failed\<close>
  | InvalidCharacter                 \<comment> \<open>the DOMException of \<open>atob\<close>\<close>
  | BrotliUnavailable                \<comment> \<open>Brotli decompression not available in Node.js\<close>
  | ZlibUnavailable                  \<comment> \<open>Zlib decompression not available\<close>
  | ZlibNodeOnly                     \<comment> \<open>Zlib (de)compression is only available in Node.js\<close>
  | NotBase64                        \<comment> \<open>Invalid token: not valid base64\<close>
  | TokenTooShort                    \<comment> \<open>Invalid token: too short\<close>
  | InvalidToken error               \<comment> \<open>Invalid token: \<open>message\<close>\<close>
  | CorruptedData                    \<comment> \<open>Invalid token: corrupted data\<close>
  | DecryptionFailed error           \<comment> \<open>Decryption failed: \<open>message\<close>\<close>
  | DecompressionFailed error        \<comment> \<open>Decompression failed: \<open>message\<close>\<close>
  | NotUTF8                          \<comment> \<open>Invalid token: not valid UTF-8\<close>
  | NotJSON                          \<comment> \<open>Invalid token: not valid JSON\<close>
  | TokenExpired                     \<comment> \<open>Token has expired\<close>
  | NoChunks                         \<comment> \<open>No chunks provided\<close>
  | MissingChunkId                   \<comment> \<open>Invalid chunk: missing chunk ID\<close>
  | ChunkIdMismatch                  \<comment> \<open>Chunk ID mismatch: chunks are from different streams\<close>
  | IncompleteChunks int nat         \<comment> \<open>Incomplete chunks: expected ..., got ...\<close>
  | MissingChunkAt nat               \<comment> \<open>Missing chunk at index ...\<close>
  | ReassemblyFailed                 \<comment> \<open>Failed to parse reassembled data: ...\<close>
  | IllTypedChunk                    \<comment> \<open>a decoded payload that is not of the asserted chunk type\<close>
  | AllKeysFailed nat "error list"   \<comment> \<open>Failed to decode token with any of the n provided keys. Errors: ...\<close>

section \<open>Byte utilities (\<open>buffers.ts\<close>)\<close>

text \<open>\<open>bytes.slice(start, end)\<close> for non-negative indices; \<open>end\<close> omitted is \<open>None\<close>.\<close>

definition sliceBytes :: "bytes \<Rightarrow> nat \<Rightarrow> nat option \<Rightarrow> bytes" where
  "sliceBytes bs start end =
     (case end of None \<Rightarrow> drop start bs | Some e \<Rightarrow> take (e - start) (drop start bs))"

definition concatBytes :: "bytes list \<Rightarrow> bytes" where
  "concatBytes arrays = concat arrays"

text \<open>\<open>DataView.setUint32(0, x, false)\<close> on a fresh 4-byte array, and \<open>getUint32(0, false)\<close>.\<close>

definition setUint32 :: "int \<Rightarrow> bytes" where
  "setUint32 x =
     (let n = nat (x mod 2 ^ 32)
      in [of_nat (n div 2 ^ 24), of_nat (n div 2 ^ 16), of_nat (n div 2 ^ 8), of_nat n])"

definition getUint32 :: "bytes \<Rightarrow> int" where
  "getUint32 bs = int (foldl (\<lambda>acc b. acc * 256 + unat b) 0 (take 4 bs))"

definition fits_uint32 :: "int \<Rightarrow> bool" where
  "fits_uint32 x = (0 \<le> x \<and> x < 2 ^ 32)"

section \<open>Metadata packer (\<open>metadata.ts\<close>)\<close>

definition ALGORITHM_MAP :: "string \<Rightarrow> nat option" where
  "ALGORITHM_MAP = map_of [(''aes-gcm-256'', 1)]"

definition ALGORITHM_REVERSE_MAP :: "nat \<Rightarrow> string option" where
  "ALGORITHM_REVERSE_MAP = map_of [(1, ''aes-gcm-256'')]"

definition COMPRESSION_MAP :: "string \<Rightarrow> nat option" where
  "COMPRESSION_MAP = map_of [(''none'', 0), (''brotli'', 1), (''lz-string'', 2), (''zlib'', 3)]"

definition COMPRESSION_REVERSE_MAP :: "nat \<Rightarrow> string option" where
  "COMPRESSION_REVERSE_MAP =
     map_of [(0, ''none''), (1, ''brotli''), (2, ''lz-string''), (3, ''zlib'')]"

definition FLAG_HAS_TIMESTAMP :: byte where
  "FLAG_HAS_TIMESTAMP = 1"

definition FLAG_HAS_TTL :: byte where
  "FLAG_HAS_TTL = 2"

definition packMetadata :: "TokenMetadata \<Rightarrow> error + bytes" where
  "packMetadata metadata =
     (case ALGORITHM_MAP (algorithm metadata) of
        None \<Rightarrow> Inl (UnsupportedAlgorithm (algorithm metadata))
      | Some algorithmId \<Rightarrow>
     (case COMPRESSION_MAP (compression metadata) of
        None \<Rightarrow> Inl (UnsupportedCompression (compression metadata))
      | Some compressionId \<Rightarrow>
          let flags = (if timestamp metadata \<noteq> None then FLAG_HAS_TIMESTAMP else 0)
                      OR (if ttl metadata \<noteq> None then FLAG_HAS_TTL else 0);
              header = [of_nat (version metadata), of_nat algorithmId, of_nat compressionId, flags]
          in Inr (concatBytes
                ([header]
                 @ (case timestamp metadata of None \<Rightarrow> []
                    | Some t \<Rightarrow> [setUint32 (t div 1000)])
                 @ (case ttl metadata of None \<Rightarrow> [] | Some l \<Rightarrow> [setUint32 l])))))"

text \<open>
  The second guard of the source (\<open>algorithmId === undefined || ...\<close>) cannot fire once
  four bytes are present and has no branch here.
\<close>

definition unpackMetadata :: "bytes \<Rightarrow> error + TokenMetadata" where
  "unpackMetadata data =
     (if length data < 4 then Inl MetadataTooShort
      else
        let algorithmId = unat (data ! 1); compressionId = unat (data ! 2); flags = data ! 3
        in case ALGORITHM_REVERSE_MAP algorithmId of
             None \<Rightarrow> Inl (UnknownAlgorithmId algorithmId)
           | Some alg \<Rightarrow>
          (case COMPRESSION_REVERSE_MAP compressionId of
             None \<Rightarrow> Inl (UnknownCompressionId compressionId)
           | Some compr \<Rightarrow>
               let m0 = \<lparr>version = unat (data ! 0), algorithm = alg, compression = compr,
                         timestamp = None, ttl = None\<rparr>
               in if flags AND FLAG_HAS_TIMESTAMP \<noteq> 0 \<and> length data < 4 + 4
                  then Inl MissingTimestampBytes
                  else
                    let m1 = (if flags AND FLAG_HAS_TIMESTAMP \<noteq> 0
                              then m0\<lparr>timestamp := Some (getUint32 (sliceBytes data 4 (Some 8)) * 1000)\<rparr>
                              else m0);
                        offset = (if flags AND FLAG_HAS_TIMESTAMP \<noteq> 0 then 8 else 4)
                    in if flags AND FLAG_HAS_TTL \<noteq> 0
                       then (if length data < offset + 4 then Inl MissingTTLBytes
                             else Inr (m1\<lparr>ttl := Some (getUint32 (sliceBytes data offset (Some (offset + 4))))\<rparr>))
                       else Inr m1))"

definition getMetadataSize :: "TokenMetadata \<Rightarrow> nat" where
  "getMetadataSize metadata =
     4 + (if timestamp metadata \<noteq> None then 4 else 0) + (if ttl metadata \<noteq> None then 4 else 0)"


section \<open>The host platform\<close>

text \<open>
  JSON values as \<open>JSON.parse\<close> returns them, with integral numbers.
\<close>

datatype json =
    JNull
  | JBool bool
  | JNum int
  | JStr string
  | JArr "json list"
  | JObj "(string \<times> json) list"

text \<open>
  The sources reach the host through environment probes and through standard services
  (JSON, UTF-8, base64, PBKDF2, AES-GCM, Brotli, Deflate, LZ-String).  None of these is
  code of the repository, so they are the fields of a record that every operation takes.
  Where the source calls the same standard algorithm through two host APIs (Web Crypto
  and Node's \<open>crypto\<close> module), one field stands for both, and the probes decide, as in
  the source, whether a service is reached at all.  A decoder that can throw returns an
  option.
\<close>

record platform =
  has_buffer :: bool   \<comment> \<open>\<open>typeof Buffer !== "undefined"\<close>\<close>
  has_subtle :: bool   \<comment> \<open>\<open>typeof crypto !== "undefined" && crypto.subtle\<close>\<close>
  is_node :: bool      \<comment> \<open>\<open>process.versions.node\<close>\<close>
  has_csprng :: bool   \<comment> \<open>one of the three random sources of \<open>randomBytes\<close> exists\<close>
  spread_limit :: nat  \<comment> \<open>the most arguments the engine accepts in one call\<close>
  JSON_stringify :: "json \<Rightarrow> string"
  JSON_parse :: "string \<Rightarrow> json option"
  TextEncoder_encode :: "string \<Rightarrow> bytes"
  TextDecoder_decode :: "bytes \<Rightarrow> string option"
  Buffer_toBase64 :: "bytes \<Rightarrow> string"       \<comment> \<open>\<open>Buffer.from(data).toString("base64")\<close>\<close>
  Buffer_fromBase64 :: "string \<Rightarrow> bytes"     \<comment> \<open>\<open>Buffer.from(s, "base64")\<close>, which never throws\<close>
  btoa :: "bytes \<Rightarrow> string"                  \<comment> \<open>\<open>btoa\<close> of the binary string of the bytes\<close>
  atob :: "string \<Rightarrow> bytes option"           \<comment> \<open>\<open>atob\<close> read back into bytes\<close>
  pbkdf2 :: "bytes \<Rightarrow> bytes \<Rightarrow> bytes"        \<comment> \<open>password, salt; 100000 rounds of SHA-256, 32 bytes\<close>
  aes_gcm_encrypt :: "bytes \<Rightarrow> bytes \<Rightarrow> bytes \<Rightarrow> bytes \<times> bytes"
                                             \<comment> \<open>key, iv, plaintext; encrypted data and tag\<close>
  aes_gcm_decrypt :: "bytes \<Rightarrow> bytes \<Rightarrow> bytes \<Rightarrow> bytes \<Rightarrow> bytes option"
                                             \<comment> \<open>key, iv, encrypted data, tag\<close>
  brotliCompress :: "bytes \<Rightarrow> bytes"
  brotliDecompress :: "bytes \<Rightarrow> bytes option"
  deflate :: "bytes \<Rightarrow> bytes"
  inflate :: "bytes \<Rightarrow> bytes option"
  LZ_compressToUint8Array :: "string \<Rightarrow> bytes"
  LZ_decompressFromUint8Array :: "bytes \<Rightarrow> string option"
  Number_toString :: "int \<Rightarrow> string"

text \<open>
  What a call reads from outside: the clock (\<open>Date.now()\<close>), the secure random source
  and \<open>Math.random()\<close>.  Each is a sequence with a cursor; reading advances the cursor.
  \<open>math_random\<close> gives \<open>Math.random().toString(36).slice(2, 11)\<close>.
\<close>

record world =
  clock :: "nat \<Rightarrow> int"
  clock_reads :: nat
  entropy :: "nat \<Rightarrow> byte"
  entropy_used :: nat
  math_random :: "nat \<Rightarrow> string"
  math_random_calls :: nat

definition Date_now :: "world \<Rightarrow> int \<times> world" where
  "Date_now w = (clock w (clock_reads w), w\<lparr>clock_reads := Suc (clock_reads w)\<rparr>)"

definition Math_random36 :: "world \<Rightarrow> string \<times> world" where
  "Math_random36 w =
     (math_random w (math_random_calls w), w\<lparr>math_random_calls := Suc (math_random_calls w)\<rparr>)"

definition randomBytes :: "platform \<Rightarrow> nat \<Rightarrow> world \<Rightarrow> error + (bytes \<times> world)" where
  "randomBytes P n w =
     (if has_csprng P
      then Inr (map (entropy w) [entropy_used w ..< entropy_used w + n],
                w\<lparr>entropy_used := entropy_used w + n\<rparr>)
      else Inl NoRandomSource)"

definition stringToBytes :: "platform \<Rightarrow> string \<Rightarrow> bytes" where
  "stringToBytes P str = TextEncoder_encode P str"

definition bytesToString :: "platform \<Rightarrow> bytes \<Rightarrow> string option" where
  "bytesToString P bs = TextDecoder_decode P bs"

section \<open>URL-safe base64 (\<open>base64.ts\<close>)\<close>

text \<open>
  \<open>btoa(String.fromCharCode(...data))\<close>: the spread passes every byte as one argument,
  and the engine throws a \<open>RangeError\<close> when there are more than it accepts.
\<close>

definition btoa_spread :: "platform \<Rightarrow> bytes \<Rightarrow> error + string" where
  "btoa_spread P data0 =
     (if length data0 > spread_limit P then Inl RangeError else Inr (btoa P data0))"

definition replaceChar :: "char \<Rightarrow> char \<Rightarrow> string \<Rightarrow> string" where
  "replaceChar a b s = map (\<lambda>c. if c = a then b else c) s"

definition encodeBase64Url :: "platform \<Rightarrow> bytes \<Rightarrow> error + string" where
  "encodeBase64Url P data =
     (case (if has_buffer P then Inr (Buffer_toBase64 P data) else btoa_spread P data) of
        Inl e \<Rightarrow> Inl e
      | Inr base64 \<Rightarrow>
          Inr (filter (\<lambda>c. c \<noteq> CHR ''='')
                 (replaceChar CHR ''/'' CHR ''_'' (replaceChar CHR ''+'' CHR ''-'' base64))))"

definition decodeBase64Url :: "platform \<Rightarrow> string \<Rightarrow> error + bytes" where
  "decodeBase64Url P str =
     (if str = [] then Inr []
      else
        let base64 = replaceChar CHR ''_'' CHR ''/'' (replaceChar CHR ''-'' CHR ''+'' str);
            padding = length base64 mod 4;
            padded = (if padding > 0 then base64 @ replicate (4 - padding) CHR ''='' else base64)
        in if has_buffer P then Inr (Buffer_fromBase64 P padded)
           else (case atob P padded of None \<Rightarrow> Inl InvalidBase64 | Some bs \<Rightarrow> Inr bs))"

section \<open>Compression layer (\<open>compression.ts\<close>)\<close>

definition LZString_compress :: "platform \<Rightarrow> bytes \<Rightarrow> error + bytes" where
  "LZString_compress P data =
     (if length data = 0 then Inr []
      else (case btoa_spread P data of
              Inl e \<Rightarrow> Inl e
            | Inr base64 \<Rightarrow> Inr (LZ_compressToUint8Array P base64)))"

definition LZString_decompress :: "platform \<Rightarrow> bytes \<Rightarrow> error + bytes" where
  "LZString_decompress P data =
     (if length data = 0 then Inr []
      else case LZ_decompressFromUint8Array P data of
             None \<Rightarrow> Inl LZDecompressionFailed
           | Some decompressed \<Rightarrow>
               if decompressed = [] then Inl LZDecompressionFailed
               else (case atob P decompressed of
                       None \<Rightarrow> Inl InvalidCharacter
                     | Some bs \<Rightarrow> Inr bs))"

definition Brotli_compress :: "platform \<Rightarrow> bytes \<Rightarrow> error + bytes" where
  "Brotli_compress P data =
     (if is_node P then Inr (brotliCompress P data) else LZString_compress P data)"

definition Brotli_decompress :: "platform \<Rightarrow> bytes \<Rightarrow> error + bytes" where
  "Brotli_decompress P data =
     (if is_node P
      then (case brotliDecompress P data of None \<Rightarrow> Inl BrotliUnavailable | Some bs \<Rightarrow> Inr bs)
      else LZString_decompress P data)"

definition Zlib_compress :: "platform \<Rightarrow> bytes \<Rightarrow> error + bytes" where
  "Zlib_compress P data = (if is_node P then Inr (deflate P data) else Inl ZlibNodeOnly)"

definition Zlib_decompress :: "platform \<Rightarrow> bytes \<Rightarrow> error + bytes" where
  "Zlib_decompress P data =
     (if is_node P
      then (case inflate P data of None \<Rightarrow> Inl ZlibUnavailable | Some bs \<Rightarrow> Inr bs)
      else Inl ZlibNodeOnly)"

text \<open>\<open>getCompressor\<close> followed by the method call, for \<open>compress\<close> and \<open>decompress\<close>.\<close>

definition compress :: "platform \<Rightarrow> bytes \<Rightarrow> string \<Rightarrow> error + bytes" where
  "compress P data alg =
     (if alg = ''none'' then Inr data
      else if alg = ''lz-string'' then LZString_compress P data
      else if alg = ''brotli'' then Brotli_compress P data
      else if alg = ''zlib'' then Zlib_compress P data
      else Inl (UnsupportedCompressionAlgorithm alg))"

definition decompress :: "platform \<Rightarrow> bytes \<Rightarrow> string \<Rightarrow> error + bytes" where
  "decompress P data alg =
     (if alg = ''none'' then Inr data
      else if alg = ''lz-string'' then LZString_decompress P data
      else if alg = ''brotli'' then Brotli_decompress P data
      else if alg = ''zlib'' then Zlib_decompress P data
      else Inl (UnsupportedCompressionAlgorithm alg))"

section \<open>Crypto engine (\<open>crypto.ts\<close>)\<close>

definition KEY_LENGTH :: nat where "KEY_LENGTH = 32"
definition IV_LENGTH :: nat where "IV_LENGTH = 12"
definition TAG_LENGTH :: nat where "TAG_LENGTH = 16"
definition SALT_LENGTH :: nat where "SALT_LENGTH = 16"

record EncryptedPayload =
  iv :: bytes
  ciphertext :: bytes

definition deriveKeyFromPassword :: "platform \<Rightarrow> string \<Rightarrow> bytes \<Rightarrow> error + bytes" where
  "deriveKeyFromPassword P password salt =
     (let passwordBytes = stringToBytes P password
      in if has_subtle P then Inr (pbkdf2 P passwordBytes salt)
         else if is_node P then Inr (pbkdf2 P passwordBytes salt)
         else Inl NoCryptoAvailable)"

definition processKeyMaterial ::
  "platform \<Rightarrow> KeyMaterial \<Rightarrow> world \<Rightarrow> error + (bytes \<times> bytes option \<times> world)" where
  "processKeyMaterial P secret w =
     (case secret of
        RawKey k \<Rightarrow> if length k \<noteq> KEY_LENGTH then Inl KeyLengthError else Inr (k, None, w)
      | Passphrase p \<Rightarrow>
          if length p = 0 then Inl EmptyPassword
          else (case randomBytes P SALT_LENGTH w of
                  Inl e \<Rightarrow> Inl e
                | Inr (salt, w') \<Rightarrow>
                    (case deriveKeyFromPassword P p salt of
                       Inl e \<Rightarrow> Inl e
                     | Inr key \<Rightarrow> Inr (key, Some salt, w'))))"

text \<open>
  Both branches of \<open>encrypt\<close> return the encrypted data followed by the tag: Web Crypto
  returns them joined, the Node branch joins them itself.
\<close>

definition encrypt ::
  "platform \<Rightarrow> bytes \<Rightarrow> KeyMaterial \<Rightarrow> world
     \<Rightarrow> error + (EncryptedPayload \<times> bytes option \<times> world)" where
  "encrypt P plaintext secret w =
     (case processKeyMaterial P secret w of
        Inl e \<Rightarrow> Inl e
      | Inr (key, salt, w1) \<Rightarrow>
     (case randomBytes P IV_LENGTH w1 of
        Inl e \<Rightarrow> Inl e
      | Inr (iv0, w2) \<Rightarrow>
          if has_subtle P
          then (let (encrypted, authTag) = aes_gcm_encrypt P key iv0 plaintext
                in Inr (\<lparr>iv = iv0, ciphertext = encrypted @ authTag\<rparr>, salt, w2))
          else if is_node P
          then (let (encrypted, authTag) = aes_gcm_encrypt P key iv0 plaintext
                in Inr (\<lparr>iv = iv0, ciphertext = encrypted @ authTag\<rparr>, salt, w2))
          else Inl NoCryptoAvailable))"

text \<open>
  The decryption proper, reached only after the key and the IV have been checked.  Web
  Crypto takes the tag from the last 16 bytes and rejects a shorter input; the Node branch
  does the same split by hand.  Every failure is the one generic message.
\<close>

definition open_ciphertext :: "platform \<Rightarrow> bytes \<Rightarrow> bytes \<Rightarrow> bytes \<Rightarrow> error + bytes" where
  "open_ciphertext P key iv0 ct =
     (if length ct < TAG_LENGTH then Inl AuthenticationFailed
      else
        let encryptedData = sliceBytes ct 0 (Some (length ct - TAG_LENGTH));
            authTag = sliceBytes ct (length ct - TAG_LENGTH) None
        in case aes_gcm_decrypt P key iv0 encryptedData authTag of
             None \<Rightarrow> Inl AuthenticationFailed
           | Some plaintext \<Rightarrow> Inr plaintext)"

definition decrypt ::
  "platform \<Rightarrow> EncryptedPayload \<Rightarrow> KeyMaterial \<Rightarrow> bytes option \<Rightarrow> error + bytes" where
  "decrypt P encrypted secret salt =
     (case (case secret of
              RawKey k \<Rightarrow> if length k \<noteq> KEY_LENGTH then Inl KeyLengthError else Inr k
            | Passphrase p \<Rightarrow>
                (case salt of
                   None \<Rightarrow> Inl SaltRequired
                 | Some s \<Rightarrow> deriveKeyFromPassword P p s)) of
        Inl e \<Rightarrow> Inl e
      | Inr key \<Rightarrow>
          if length (iv encrypted) \<noteq> IV_LENGTH then Inl (InvalidIVLength (length (iv encrypted)))
          else if has_subtle P then open_ciphertext P key (iv encrypted) (ciphertext encrypted)
          else if is_node P then open_ciphertext P key (iv encrypted) (ciphertext encrypted)
          else Inl NoCryptoAvailable)"

section \<open>Versioning (\<open>versioning.ts\<close>)\<close>

definition CURRENT_VERSION :: nat where "CURRENT_VERSION = 1"

definition SUPPORTED_VERSIONS :: "nat list" where "SUPPORTED_VERSIONS = [1]"

definition isSupportedVersion :: "nat \<Rightarrow> bool" where
  "isSupportedVersion v = (v \<in> set SUPPORTED_VERSIONS)"

definition validateVersion :: "TokenMetadata \<Rightarrow> error + unit" where
  "validateVersion metadata =
     (if \<not> isSupportedVersion (version metadata)
      then Inl (UnsupportedVersion (version metadata))
      else Inr ())"

section \<open>Token pipeline (\<open>cwc.ts\<close>)\<close>

text \<open>\<open>types.ts\<close>: \<open>EncodeOptions\<close>; an absent \<open>includeTimestamp\<close> is \<open>False\<close>.\<close>

record EncodeOptions =
  opt_compression :: "string option"
  opt_algorithm :: "string option"
  includeTimestamp :: bool
  opt_ttl :: "int option"

definition createDefaultMetadata ::
  "string \<Rightarrow> string \<Rightarrow> bool \<Rightarrow> int option \<Rightarrow> world \<Rightarrow> TokenMetadata \<times> world" where
  "createDefaultMetadata compr alg includeTs ttl0 w =
     (let m = \<lparr>version = 1, algorithm = alg, compression = compr, timestamp = None, ttl = None\<rparr>;
          (m1, w1) = (if includeTs
                      then (let (now, w') = Date_now w in (m\<lparr>timestamp := Some now\<rparr>, w'))
                      else (m, w))
      in (if ttl0 \<noteq> None then m1\<lparr>ttl := ttl0\<rparr> else m1, w1))"

definition encode ::
  "platform \<Rightarrow> json \<Rightarrow> KeyMaterial \<Rightarrow> EncodeOptions \<Rightarrow> world \<Rightarrow> error + (string \<times> world)" where
  "encode P data secret options w =
     (let json = JSON_stringify P data;
          jsonBytes = stringToBytes P json;
          compressionAlgorithm = (case opt_compression options of None \<Rightarrow> ''brotli'' | Some c \<Rightarrow> c)
      in case compress P jsonBytes compressionAlgorithm of
           Inl e \<Rightarrow> Inl e
         | Inr compressed \<Rightarrow>
        (case encrypt P compressed secret w of
           Inl e \<Rightarrow> Inl e
         | Inr (encrypted, salt, w1) \<Rightarrow>
             let (metadata, w2) =
                   createDefaultMetadata compressionAlgorithm
                     (case opt_algorithm options of None \<Rightarrow> ''aes-gcm-256'' | Some a \<Rightarrow> a)
                     (includeTimestamp options) (opt_ttl options) w1
             in case packMetadata metadata of
                  Inl e \<Rightarrow> Inl e
                | Inr metadataBytes \<Rightarrow>
                    let parts = [metadataBytes]
                                @ (case salt of None \<Rightarrow> [] | Some s \<Rightarrow> [s])
                                @ [iv encrypted] @ [ciphertext encrypted];
                        combined = concatBytes parts
                    in case encodeBase64Url P combined of
                         Inl e \<Rightarrow> Inl e
                       | Inr token \<Rightarrow> Inr (token, w2)))"

text \<open>
  \<open>decode\<close>, steps 1 to 3: base64, metadata and version, then the split into salt (only
  for a passphrase), IV and ciphertext.
\<close>

definition decode_split ::
  "platform \<Rightarrow> string \<Rightarrow> KeyMaterial
     \<Rightarrow> error + (TokenMetadata \<times> bytes option \<times> EncryptedPayload)" where
  "decode_split P token secret =
     (case decodeBase64Url P token of
        Inl e \<Rightarrow> Inl NotBase64
      | Inr combined \<Rightarrow>
          if length combined < 4 then Inl TokenTooShort
          else
           (case unpackMetadata combined of
              Inl e \<Rightarrow> Inl (InvalidToken e)
            | Inr metadata \<Rightarrow>
           (case validateVersion metadata of
              Inl e \<Rightarrow> Inl (InvalidToken e)
            | Inr _ \<Rightarrow>
                let offset = getMetadataSize metadata;
                    isString = (case secret of Passphrase _ \<Rightarrow> True | RawKey _ \<Rightarrow> False);
                    minSize = offset + (if isString then 16 else 0) + 12
                in if length combined < minSize then Inl CorruptedData
                   else
                     let salt = (if isString
                                 then Some (sliceBytes combined offset (Some (offset + 16)))
                                 else None);
                         offset1 = (if isString then offset + 16 else offset);
                         iv0 = sliceBytes combined offset1 (Some (offset1 + 12));
                         offset2 = offset1 + 12;
                         ciphertext0 = sliceBytes combined offset2 None
                     in Inr (metadata, salt, \<lparr>iv = iv0, ciphertext = ciphertext0\<rparr>))))"

text \<open>Steps 4 to 6: decrypt, decompress, decode UTF-8 and parse.\<close>

definition decode_open ::
  "platform \<Rightarrow> TokenMetadata \<Rightarrow> bytes option \<Rightarrow> EncryptedPayload \<Rightarrow> KeyMaterial
     \<Rightarrow> error + json" where
  "decode_open P metadata salt encrypted secret =
     (case decrypt P encrypted secret salt of
        Inl e \<Rightarrow> Inl (DecryptionFailed e)
      | Inr decrypted \<Rightarrow>
     (case decompress P decrypted (compression metadata) of
        Inl e \<Rightarrow> Inl (DecompressionFailed e)
      | Inr decompressed \<Rightarrow>
     (case bytesToString P decompressed of
        None \<Rightarrow> Inl NotUTF8
      | Some json \<Rightarrow>
     (case JSON_parse P json of
        None \<Rightarrow> Inl NotJSON
      | Some data \<Rightarrow> Inr data))))"

text \<open>
  The check that closes \<open>decode\<close>: \<open>if (metadata.timestamp && metadata.ttl)\<close> tests
  the two numbers for truthiness, so an absent field and the number 0 both skip it.
\<close>

definition truthy :: "int option \<Rightarrow> bool" where
  "truthy x = (case x of None \<Rightarrow> False | Some n \<Rightarrow> n \<noteq> 0)"

definition ttl_expired :: "TokenMetadata \<Rightarrow> int \<Rightarrow> bool" where
  "ttl_expired metadata now =
     (truthy (timestamp metadata) \<and> truthy (ttl metadata)
      \<and> now > the (timestamp metadata) + the (ttl metadata) * 1000)"

text \<open>\<open>now\<close> is what \<open>Date.now()\<close> returns if this call reads the clock.\<close>

definition decode :: "platform \<Rightarrow> string \<Rightarrow> KeyMaterial \<Rightarrow> int \<Rightarrow> error + json" where
  "decode P token secret now =
     (case decode_split P token secret of
        Inl e \<Rightarrow> Inl e
      | Inr (metadata, salt, encrypted) \<Rightarrow>
     (case decode_open P metadata salt encrypted secret of
        Inl e \<Rightarrow> Inl e
      | Inr data \<Rightarrow>
          if ttl_expired metadata now then Inl TokenExpired else Inr data))"

definition validateToken :: "platform \<Rightarrow> string \<Rightarrow> bool" where
  "validateToken P token =
     (case decodeBase64Url P token of
        Inl e \<Rightarrow> False
      | Inr combined \<Rightarrow>
          if length combined < 4 then False
          else
           (case unpackMetadata combined of
              Inl e \<Rightarrow> False
            | Inr metadata \<Rightarrow>
           (case validateVersion metadata of
              Inl e \<Rightarrow> False
            | Inr _ \<Rightarrow>
                let minSize = getMetadataSize metadata + 12 + 16
                in length combined \<ge> minSize)))"

definition extractMetadata :: "platform \<Rightarrow> string \<Rightarrow> error + TokenMetadata" where
  "extractMetadata P token =
     (case decodeBase64Url P token of
        Inl e \<Rightarrow> Inl (InvalidToken e)
      | Inr combined \<Rightarrow>
     (case unpackMetadata combined of
        Inl e \<Rightarrow> Inl (InvalidToken e)
      | Inr metadata \<Rightarrow>
     (case validateVersion metadata of
        Inl e \<Rightarrow> Inl (InvalidToken e)
      | Inr _ \<Rightarrow> Inr metadata)))"

section \<open>TTL utilities (\<open>ttl.ts\<close>)\<close>

definition isMetadataExpired :: "TokenMetadata \<Rightarrow> int \<Rightarrow> bool" where
  "isMetadataExpired metadata now =
     (if \<not> truthy (timestamp metadata) \<or> \<not> truthy (ttl metadata) then False
      else now \<ge> the (timestamp metadata) + the (ttl metadata) * 1000)"

section \<open>Key rotation (\<open>keyRotation.ts\<close>)\<close>

text \<open>
  The loop of \<open>decodeWithKeyFallback\<close>: \<open>i\<close> is the index of the head of the remaining
  secrets, \<open>errors\<close> the failures collected so far, \<open>now i\<close> the clock of the attempt
  with key \<open>i\<close>.  Of the two kinds of secret only the empty string is falsy, and
  \<open>if (!secret) continue\<close> passes over it.
\<close>

fun fallback_loop ::
  "platform \<Rightarrow> string \<Rightarrow> (nat \<Rightarrow> int) \<Rightarrow> nat \<Rightarrow> error list \<Rightarrow> KeyMaterial list
     \<Rightarrow> error list + (json \<times> nat)" where
  "fallback_loop P token now i errors [] = Inl errors"
| "fallback_loop P token now i errors (secret # rest) =
     (if secret = Passphrase [] then fallback_loop P token now (Suc i) errors rest
      else (case decode P token secret (now i) of
              Inr data \<Rightarrow> Inr (data, i)
            | Inl e \<Rightarrow> fallback_loop P token now (Suc i) (errors @ [e]) rest))"

definition decodeWithKeyFallback ::
  "platform \<Rightarrow> string \<Rightarrow> KeyMaterial list \<Rightarrow> (nat \<Rightarrow> int) \<Rightarrow> error + (json \<times> nat)" where
  "decodeWithKeyFallback P token secrets now =
     (case fallback_loop P token now 0 [] secrets of
        Inr r \<Rightarrow> Inr r
      | Inl errors \<Rightarrow> Inl (AllKeysFailed (length secrets) errors))"

section \<open>Streaming (\<open>streaming.ts\<close>)\<close>

record ChunkMetadata =
  index :: int
  total :: int
  chunkId :: string

record EncodedChunk =
  token :: string
  metadata :: ChunkMetadata

text \<open>The payload type \<open>{ data: string; meta: ChunkMetadata }\<close> of a chunk token.\<close>

record DecodedChunk =
  data :: string
  meta :: ChunkMetadata

definition chunkPayload :: "string \<Rightarrow> ChunkMetadata \<Rightarrow> json" where
  "chunkPayload chunkData chunkMetadata =
     JObj [(''data'', JStr chunkData),
           (''meta'', JObj [(''index'', JNum (index chunkMetadata)),
                           (''total'', JNum (total chunkMetadata)),
                           (''chunkId'', JStr (chunkId chunkMetadata))])]"

text \<open>
  \<open>decode<{ data: string; meta: ChunkMetadata }>\<close> asserts the type of the decoded
  value without checking it.  The model reads the fields and has one outcome,
  \<open>IllTypedChunk\<close>, for every value that is not of the asserted type; what the source
  does with such a value is outside the model.
\<close>

fun asChunkMetadata :: "json \<Rightarrow> ChunkMetadata option" where
  "asChunkMetadata (JObj fs) =
     (case (map_of fs ''index'', map_of fs ''total'', map_of fs ''chunkId'') of
        (Some (JNum i), Some (JNum t), Some (JStr c)) \<Rightarrow>
          Some \<lparr>index = i, total = t, chunkId = c\<rparr>
      | _ \<Rightarrow> None)"
| "asChunkMetadata _ = None"

fun asDecodedChunk :: "json \<Rightarrow> DecodedChunk option" where
  "asDecodedChunk (JObj fs) =
     (case (map_of fs ''data'', map_of fs ''meta'') of
        (Some (JStr d), Some m) \<Rightarrow>
          (case asChunkMetadata m of
             Some cm \<Rightarrow> Some \<lparr>data = d, meta = cm\<rparr>
           | None \<Rightarrow> None)
      | _ \<Rightarrow> None)"
| "asDecodedChunk _ = None"

definition generateChunkId :: "platform \<Rightarrow> world \<Rightarrow> string \<times> world" where
  "generateChunkId P w =
     (let (now, w1) = Date_now w; (r, w2) = Math_random36 w1
      in (Number_toString P now @ ''-'' @ r, w2))"

text \<open>\<open>json.slice(start, end)\<close> for \<open>0 \<le> start\<close>.\<close>

definition string_slice :: "string \<Rightarrow> nat \<Rightarrow> nat \<Rightarrow> string" where
  "string_slice s start end = take (end - start) (drop start s)"

text \<open>
  The body of the loop of \<open>encodeStream\<close>, run for the indices that remain.
\<close>

fun encodeChunks ::
  "platform \<Rightarrow> string \<Rightarrow> KeyMaterial \<Rightarrow> EncodeOptions \<Rightarrow> nat \<Rightarrow> nat \<Rightarrow> string
     \<Rightarrow> nat list \<Rightarrow> world \<Rightarrow> error + (EncodedChunk list \<times> world)" where
  "encodeChunks P json secret options chunkSize numChunks cid [] w = Inr ([], w)"
| "encodeChunks P json secret options chunkSize numChunks cid (i # rest) w =
     (let totalSize = length json;
          start = i * chunkSize;
          end = min (start + chunkSize) totalSize;
          chunkData = string_slice json start end;
          chunkMetadata = \<lparr>index = int i, total = int numChunks, chunkId = cid\<rparr>;
          chunkPayload0 = chunkPayload chunkData chunkMetadata
      in case encode P chunkPayload0 secret options w of
           Inl e \<Rightarrow> Inl e
         | Inr (token0, w1) \<Rightarrow>
             (case encodeChunks P json secret options chunkSize numChunks cid rest w1 of
                Inl e \<Rightarrow> Inl e
              | Inr (chunks, w2) \<Rightarrow>
                  Inr (\<lparr>token = token0, metadata = chunkMetadata\<rparr> # chunks, w2)))"

text \<open>
  \<open>Math.ceil(totalSize / chunkSize)\<close> for a positive integral chunk size.  With
  \<open>chunkSize = 0\<close> the quotient is \<open>NaN\<close> for an empty text (no chunk) and \<open>Infinity\<close>
  otherwise, when the loop of the source does not end: that is the result \<open>None\<close>.
\<close>

definition encodeStream ::
  "platform \<Rightarrow> json \<Rightarrow> KeyMaterial \<Rightarrow> EncodeOptions \<Rightarrow> nat \<Rightarrow> world
     \<Rightarrow> (error + (EncodedChunk list \<times> world)) option" where
  "encodeStream P data0 secret options chunkSize w =
     (let json = JSON_stringify P data0;
          totalSize = length json
      in if chunkSize = 0 \<and> totalSize > 0 then None
         else
           let numChunks = (if chunkSize = 0 then 0 else (totalSize + chunkSize - 1) div chunkSize);
               (cid, w1) = generateChunkId P w
           in Some (encodeChunks P json secret options chunkSize numChunks cid [0 ..< numChunks] w1))"

text \<open>The first loop of \<open>decodeStream\<close>; \<open>now i\<close> is the clock of the \<open>i\<close>-th decode.\<close>

fun decodeChunks ::
  "platform \<Rightarrow> KeyMaterial \<Rightarrow> (nat \<Rightarrow> int) \<Rightarrow> nat \<Rightarrow> EncodedChunk list
     \<Rightarrow> error + DecodedChunk list" where
  "decodeChunks P secret now i [] = Inr []"
| "decodeChunks P secret now i (chunk # rest) =
     (case decode P (token chunk) secret (now i) of
        Inl e \<Rightarrow> Inl e
      | Inr decoded \<Rightarrow>
          (case asDecodedChunk decoded of
             None \<Rightarrow> Inl IllTypedChunk
           | Some c \<Rightarrow>
               (case decodeChunks P secret now (Suc i) rest of
                  Inl e \<Rightarrow> Inl e
                | Inr cs \<Rightarrow> Inr (c # cs))))"

text \<open>The last loop: the first position whose chunk does not carry that position as index.\<close>

fun firstGap :: "nat \<Rightarrow> DecodedChunk list \<Rightarrow> nat option" where
  "firstGap i [] = None"
| "firstGap i (c # cs) = (if index (meta c) \<noteq> int i then Some i else firstGap (Suc i) cs)"

text \<open>\<open>decodeStream\<close> after the chunks are decoded.\<close>

definition reassemble :: "platform \<Rightarrow> DecodedChunk list \<Rightarrow> error + json" where
  "reassemble P decodedChunks =
     (case decodedChunks of
        [] \<Rightarrow> Inl MissingChunkId
      | first # _ \<Rightarrow>
          let cid = chunkId (meta first)
          in if cid = [] then Inl MissingChunkId
             else if \<exists>c \<in> set decodedChunks. chunkId (meta c) \<noteq> cid then Inl ChunkIdMismatch
             else
               let sorted = sort_key (\<lambda>c. index (meta c)) decodedChunks;
                   total0 = (case sorted of [] \<Rightarrow> 0 | c # _ \<Rightarrow> total (meta c))
               in if int (length sorted) \<noteq> total0
                  then Inl (IncompleteChunks total0 (length sorted))
                  else (case firstGap 0 sorted of
                          Some i \<Rightarrow> Inl (MissingChunkAt i)
                        | None \<Rightarrow>
                            (case JSON_parse P (concat (map data sorted)) of
                               None \<Rightarrow> Inl ReassemblyFailed
                             | Some v \<Rightarrow> Inr v)))"

definition decodeStream ::
  "platform \<Rightarrow> EncodedChunk list \<Rightarrow> KeyMaterial \<Rightarrow> (nat \<Rightarrow> int) \<Rightarrow> error + json" where
  "decodeStream P chunks secret now =
     (if length chunks = 0 then Inl NoChunks
      else (case decodeChunks P secret now 0 chunks of
              Inl e \<Rightarrow> Inl e
            | Inr decodedChunks \<Rightarrow> reassemble P decodedChunks))"

section \<open>What the theorems ask of the platform\<close>

text \<open>
  The contracts of the standard services, as hypotheses about the fields of a platform.
  Base64 (RFC 4648): the text is over the 64-character alphabet, padded with \<open>=\<close> to a
  multiple of four characters, and decodes to the bytes it encodes.
\<close>

definition base64_alphabet :: "char set" where
  "base64_alphabet = set ''ABCDEFGHIJKLMNOPQRSTUVWXYZabcdefghijklmnopqrstuvwxyz0123456789+/''"

definition base64_codec :: "(bytes \<Rightarrow> string) \<Rightarrow> (string \<Rightarrow> bytes option) \<Rightarrow> bool" where
  "base64_codec enc dec \<longleftrightarrow>
     enc [] = [] \<and>
     (\<forall>bs. \<exists>body k. enc bs = body @ replicate k CHR ''='' \<and> set body \<subseteq> base64_alphabet
                \<and> k < 4 \<and> length (enc bs) mod 4 = 0 \<and> dec (enc bs) = Some bs)"

text \<open>The codec that \<open>base64.ts\<close> reaches on this platform.\<close>

definition base64_ok :: "platform \<Rightarrow> bool" where
  "base64_ok P \<longleftrightarrow>
     (if has_buffer P then base64_codec (Buffer_toBase64 P) (\<lambda>s. Some (Buffer_fromBase64 P s))
      else base64_codec (btoa P) (atob P))"

text \<open>AES-GCM with a 128-bit tag: the tag has 16 bytes, and opening what was sealed
  under the same key and IV gives the plaintext.\<close>

definition aead_ok :: "platform \<Rightarrow> bool" where
  "aead_ok P \<longleftrightarrow>
     (\<forall>key iv0 pt. length (snd (aes_gcm_encrypt P key iv0 pt)) = TAG_LENGTH
        \<and> aes_gcm_decrypt P key iv0 (fst (aes_gcm_encrypt P key iv0 pt))
             (snd (aes_gcm_encrypt P key iv0 pt)) = Some pt)"

text \<open>A secure random source and one of the two crypto implementations exist.\<close>

definition services_available :: "platform \<Rightarrow> bool" where
  "services_available P \<longleftrightarrow> has_csprng P \<and> (has_subtle P \<or> is_node P)"

text \<open>Each decompressor inverts its compressor; LZ-String never returns an empty array.\<close>

definition compression_ok :: "platform \<Rightarrow> bool" where
  "compression_ok P \<longleftrightarrow>
     (\<forall>x. brotliDecompress P (brotliCompress P x) = Some x) \<and>
     (\<forall>x. inflate P (deflate P x) = Some x) \<and>
     (\<forall>s. LZ_compressToUint8Array P s \<noteq> []
          \<and> LZ_decompressFromUint8Array P (LZ_compressToUint8Array P s) = Some s) \<and>
     base64_codec (btoa P) (atob P)"

text \<open>UTF-8 decoding inverts encoding on the texts that \<open>JSON.stringify\<close> produces.\<close>

definition text_ok :: "platform \<Rightarrow> bool" where
  "text_ok P \<longleftrightarrow>
     (\<forall>v. TextDecoder_decode P (TextEncoder_encode P (JSON_stringify P v))
            = Some (JSON_stringify P v))"

definition platform_ok :: "platform \<Rightarrow> bool" where
  "platform_ok P \<longleftrightarrow>
     services_available P \<and> base64_ok P \<and> aead_ok P \<and> compression_ok P \<and> text_ok P"

text \<open>A JSON-representable value: parsing its serialisation gives it back.\<close>

definition json_roundtrips :: "platform \<Rightarrow> json \<Rightarrow> bool" where
  "json_roundtrips P v \<longleftrightarrow> JSON_parse P (JSON_stringify P v) = Some v"

text \<open>A valid secret: a non-empty passphrase or a raw key of 32 bytes.\<close>

definition validSecret :: "KeyMaterial \<Rightarrow> bool" where
  "validSecret secret =
     (case secret of Passphrase p \<Rightarrow> p \<noteq> [] | RawKey k \<Rightarrow> length k = KEY_LENGTH)"

section \<open>A reference platform\<close>

text \<open>
  A platform on which everything can be computed, for the closed instances of the
  theorems below: standard base64, a JSON printer for values whose strings need no
  escaping with a parser that knows the values listed in \<open>ref_values\<close>, one character
  per byte as text encoding, and stand-ins for the key derivation, the cipher and the
  compressors that meet the contracts above.
\<close>

definition b64_table :: string where
  "b64_table = ''ABCDEFGHIJKLMNOPQRSTUVWXYZabcdefghijklmnopqrstuvwxyz0123456789+/''"

definition b64_char :: "nat \<Rightarrow> char" where
  "b64_char n = b64_table ! n"

fun index_from :: "nat \<Rightarrow> char \<Rightarrow> string \<Rightarrow> nat option" where
  "index_from i c [] = None"
| "index_from i c (x # xs) = (if c = x then Some i else index_from (i + 1) c xs)"

definition b64_index :: "char \<Rightarrow> nat option" where
  "b64_index c = index_from 0 c b64_table"

fun b64_encode :: "bytes \<Rightarrow> string" where
  "b64_encode (a # b # c # rest) =
     (let n = unat a * 65536 + unat b * 256 + unat c
      in [b64_char (n div 262144), b64_char (n div 4096 mod 64),
          b64_char (n div 64 mod 64), b64_char (n mod 64)] @ b64_encode rest)"
| "b64_encode [a, b] =
     (let n = unat a * 1024 + unat b * 4
      in [b64_char (n div 4096), b64_char (n div 64 mod 64), b64_char (n mod 64), CHR ''=''])"
| "b64_encode [a] =
     (let n = unat a * 16
      in [b64_char (n div 64), b64_char (n mod 64), CHR ''='', CHR ''=''])"
| "b64_encode [] = []"

fun b64_decode :: "string \<Rightarrow> bytes option" where
  "b64_decode [] = Some []"
| "b64_decode (c1 # c2 # c3 # c4 # rest) =
     (if c3 = CHR ''='' \<and> c4 = CHR ''='' \<and> rest = []
      then (case (b64_index c1, b64_index c2) of
              (Some x, Some y) \<Rightarrow> Some [of_nat ((x * 64 + y) div 16)]
            | _ \<Rightarrow> None)
      else if c4 = CHR ''='' \<and> rest = []
      then (case (b64_index c1, b64_index c2, b64_index c3) of
              (Some x, Some y, Some z) \<Rightarrow>
                (let n = (x * 64 + y) * 64 + z in Some [of_nat (n div 1024), of_nat (n div 4)])
            | _ \<Rightarrow> None)
      else (case (b64_index c1, b64_index c2, b64_index c3, b64_index c4, b64_decode rest) of
              (Some x, Some y, Some z, Some u, Some bs) \<Rightarrow>
                (let n = ((x * 64 + y) * 64 + z) * 64 + u
                 in Some (of_nat (n div 65536) # of_nat (n div 256) # of_nat n # bs))
            | _ \<Rightarrow> None))"
| "b64_decode _ = None"



definition ref_fromBase64 :: "string \<Rightarrow> bytes" where
  "ref_fromBase64 s = (case b64_decode s of None \<Rightarrow> [] | Some bs \<Rightarrow> bs)"

function show_nat :: "nat \<Rightarrow> string" where
  "show_nat n =
     (if n < 10 then [''0123456789'' ! n]
      else show_nat (n div 10) @ [''0123456789'' ! (n mod 10)])"
  by pat_completeness auto
termination
  by (relation "measure id") auto

definition show_int :: "int \<Rightarrow> string" where
  "show_int i = (if i < 0 then CHR ''-'' # show_nat (nat (- i)) else show_nat (nat i))"

definition quote :: "string \<Rightarrow> string" where
  "quote s = CHR 0x22 # s @ [CHR 0x22]"

fun join_commas :: "string list \<Rightarrow> string" where
  "join_commas [] = []"
| "join_commas [x] = x"
| "join_commas (x # y # rest) = x @ '','' @ join_commas (y # rest)"

fun ref_stringify :: "json \<Rightarrow> string" where
  "ref_stringify JNull = ''null''"
| "ref_stringify (JBool b) = (if b then ''true'' else ''false'')"
| "ref_stringify (JNum i) = show_int i"
| "ref_stringify (JStr s) = quote s"
| "ref_stringify (JArr vs) = ''['' @ join_commas (map ref_stringify vs) @ '']''"
| "ref_stringify (JObj fs) =
     ''{'' @ join_commas (map (\<lambda>kv. quote (fst kv) @ '':'' @ ref_stringify (snd kv)) fs) @ ''}''"

definition ref_cid :: string where
  "ref_cid = ''1700000000000-k3j9x2m1q''"

definition ref_values :: "json list" where
  "ref_values =
     [JObj [(''msg'', JStr ''hi'')],
      JArr [JNum 1, JNum 2, JNum 3],
      chunkPayload ''[1,'' \<lparr>index = 0, total = 3, chunkId = ref_cid\<rparr>,
      chunkPayload ''2,3'' \<lparr>index = 1, total = 3, chunkId = ref_cid\<rparr>,
      chunkPayload '']'' \<lparr>index = 2, total = 3, chunkId = ref_cid\<rparr>,
      chunkPayload ''[1,'' \<lparr>index = 0, total = 2, chunkId = []\<rparr>,
      chunkPayload ''[1,'' \<lparr>index = 0, total = 2, chunkId = ''a''\<rparr>,
      chunkPayload ''2,3]'' \<lparr>index = 1, total = 2, chunkId = ''a''\<rparr>,
      chunkPayload ''2,3]'' \<lparr>index = 2, total = 2, chunkId = ''a''\<rparr>,
      chunkPayload ''[1,2,3]'' \<lparr>index = 0, total = 1, chunkId = ''1700000000001-k3j9x2m1q''\<rparr>,
      JStr (replicate 200000 CHR ''a'')]"

definition ref_parse :: "string \<Rightarrow> json option" where
  "ref_parse s = find (\<lambda>v. ref_stringify v = s) ref_values"

definition ref_tag :: "bytes \<Rightarrow> bytes" where
  "ref_tag key = take 16 (key @ replicate 16 0)"

definition ref_platform :: platform where
  "ref_platform =
     \<lparr>has_buffer = True, has_subtle = True, is_node = True, has_csprng = True,
      spread_limit = 120000,
      JSON_stringify = ref_stringify,
      JSON_parse = ref_parse,
      TextEncoder_encode = map (\<lambda>c. of_nat (of_char c)),
      TextDecoder_decode = (\<lambda>bs. Some (map (\<lambda>b. char_of (unat b)) bs)),
      Buffer_toBase64 = b64_encode,
      Buffer_fromBase64 = ref_fromBase64,
      btoa = b64_encode,
      atob = b64_decode,
      pbkdf2 = (\<lambda>password salt. take 32 (password @ salt @ replicate 32 0)),
      aes_gcm_encrypt = (\<lambda>key iv0 pt. (map (\<lambda>b. b + 1) pt, ref_tag key)),
      aes_gcm_decrypt = (\<lambda>key iv0 ct tag0.
         if tag0 = ref_tag key then Some (map (\<lambda>b. b - 1) ct) else None),
      brotliCompress = (\<lambda>x. 66 # x),
      brotliDecompress = (\<lambda>x. case x of [] \<Rightarrow> None | b # r \<Rightarrow> if b = 66 then Some r else None),
      deflate = (\<lambda>x. 120 # x),
      inflate = (\<lambda>x. case x of [] \<Rightarrow> None | b # r \<Rightarrow> if b = 120 then Some r else None),
      LZ_compressToUint8Array = (\<lambda>s. 76 # map (\<lambda>c. of_nat (of_char c)) s),
      LZ_decompressFromUint8Array =
        (\<lambda>x. case x of [] \<Rightarrow> None
              | b # r \<Rightarrow> if b = 76 then Some (map (\<lambda>b. char_of (unat b)) r) else None),
      Number_toString = show_int\<rparr>"

text \<open>The same services in a browser: no \<open>Buffer\<close>, no \<open>process.versions.node\<close>.\<close>

definition browser_platform :: platform where
  "browser_platform = ref_platform\<lparr>has_buffer := False, is_node := False\<rparr>"

definition ref_world :: world where
  "ref_world =
     \<lparr>clock = (\<lambda>k. 1700000000000), clock_reads = 0,
      entropy = (\<lambda>k. of_nat k), entropy_used = 0,
      math_random = (\<lambda>k. ''k3j9x2m1q''), math_random_calls = 0\<rparr>"

text \<open>The compression ids for which \<open>compress\<close> runs the LZ-String compressor, with its
  spread of the input bytes: lz-string, and brotli outside Node.js.\<close>

definition lzPath :: "platform \<Rightarrow> string \<Rightarrow> bool" where
  "lzPath P c \<longleftrightarrow> c = ''lz-string'' \<or> c = ''brotli'' \<and> \<not> is_node P"

text \<open>The \<open>n\<close> bytes a call draws from the random source after \<open>off\<close> earlier ones, and
  the key \<open>encrypt\<close> seals with: the raw key, or the key derived from the passphrase and
  the salt.\<close>

definition drawn :: "world \<Rightarrow> nat \<Rightarrow> nat \<Rightarrow> bytes" where
  "drawn w off n = map (entropy w) [entropy_used w + off ..< entropy_used w + off + n]"

definition sealKey :: "platform \<Rightarrow> KeyMaterial \<Rightarrow> bytes \<Rightarrow> bytes" where
  "sealKey P secret salt =
     (case secret of RawKey k \<Rightarrow> k | Passphrase p \<Rightarrow> pbkdf2 P (TextEncoder_encode P p) salt)"

text \<open>The two replacements of \<open>encodeBase64Url\<close> on one character.\<close>

definition urlsafe :: "char \<Rightarrow> char" where
  "urlsafe c = (if c = CHR ''/'' then CHR ''_'' else if c = CHR ''+'' then CHR ''-'' else c)"

text \<open>What \<open>unpackMetadata\<close> reads back from the bytes \<open>packMetadata\<close> wrote for a record:
  the version byte, whole seconds as milliseconds, and the two 32-bit fields.\<close>

definition stored :: "TokenMetadata \<Rightarrow> TokenMetadata" where
  "stored m =
     m\<lparr>version := version m mod 256,
       timestamp := map_option (\<lambda>t. (t div 1000) mod 2 ^ 32 * 1000) (timestamp m),
       ttl := map_option (\<lambda>l. l mod 2 ^ 32) (ttl m)\<rparr>"

text \<open>The compression and algorithm ids \<open>encode\<close> uses for given options.\<close>

definition chosenCompression :: "EncodeOptions \<Rightarrow> string" where
  "chosenCompression options = (case opt_compression options of None \<Rightarrow> ''brotli'' | Some c \<Rightarrow> c)"

definition chosenAlgorithm :: "EncodeOptions \<Rightarrow> string" where
  "chosenAlgorithm options = (case opt_algorithm options of None \<Rightarrow> ''aes-gcm-256'' | Some a \<Rightarrow> a)"

text \<open>The options \<open>{ compression }\<close> and \<open>{}\<close>.\<close>

definition compressionOnly :: "string \<Rightarrow> EncodeOptions" where
  "compressionOnly c =
     \<lparr>opt_compression = Some c, opt_algorithm = None, includeTimestamp = False, opt_ttl = None\<rparr>"

definition noOptions :: EncodeOptions where
  "noOptions =
     \<lparr>opt_compression = None, opt_algorithm = None, includeTimestamp = False, opt_ttl = None\<rparr>"

text \<open>The key of \<open>decrypt\<close> can be had: a raw key of 32 bytes, or a passphrase with a salt
  where a crypto implementation exists.\<close>

definition keyAvailable :: "platform \<Rightarrow> KeyMaterial \<Rightarrow> bytes option \<Rightarrow> bool" where
  "keyAvailable P secret salt =
     (case secret of
        RawKey k \<Rightarrow> length k = KEY_LENGTH
      | Passphrase p \<Rightarrow> salt \<noteq> None \<and> (has_subtle P \<or> is_node P))"

text \<open>The secrets \<open>decodeWithKeyFallback\<close> tries, each with its index in the list given:
  all but the empty passphrases.\<close>

definition tried_keys :: "KeyMaterial list \<Rightarrow> (nat \<times> KeyMaterial) list" where
  "tried_keys secrets =
     filter (\<lambda>(i, s). s \<noteq> Passphrase []) (zip [0 ..< length secrets] secrets)"

text \<open>
  The number of bytes \<open>encrypt\<close> adds to a token for the compressed data it is given: the
  salt (for a passphrase), the IV, the encrypted data and the tag.
\<close>

definition sealedSize :: "platform \<Rightarrow> KeyMaterial \<Rightarrow> world \<Rightarrow> bytes \<Rightarrow> nat" where
  "sealedSize P secret w compressed =
     (let salt = (case secret of Passphrase _ \<Rightarrow> drawn w 0 16 | RawKey _ \<Rightarrow> []);
          iv0 = (case secret of Passphrase _ \<Rightarrow> drawn w 16 12 | RawKey _ \<Rightarrow> drawn w 0 12);
          (ct, tag) = aes_gcm_encrypt P (sealKey P secret salt) iv0 compressed
      in length salt + length iv0 + length ct + length tag)"

text \<open>
  No byte array that \<open>encode\<close> spreads into the arguments of one call is longer than the
  engine accepts: the serialised value on the LZ-String path, and the bytes of the token
  where \<open>Buffer\<close> is absent.
\<close>

definition spreadsFit :: "platform \<Rightarrow> json \<Rightarrow> KeyMaterial \<Rightarrow> EncodeOptions \<Rightarrow> world \<Rightarrow> bool" where
  "spreadsFit P d secret options w \<longleftrightarrow>
     (lzPath P (chosenCompression options)
        \<longrightarrow> length (TextEncoder_encode P (JSON_stringify P d)) \<le> spread_limit P)
   \<and> (has_buffer P
      \<or> (case compress P (TextEncoder_encode P (JSON_stringify P d)) (chosenCompression options) of
            Inl e \<Rightarrow> True
          | Inr compressed \<Rightarrow>
              4 + (if includeTimestamp options then 4 else 0)
                + (if opt_ttl options \<noteq> None then 4 else 0)
                + sealedSize P secret w compressed \<le> spread_limit P))"
section \<open>What a stream is made of\<close>

text \<open>The payload object of a decoded chunk, and the chunk that \<open>encodeStream\<close> wraps at
  index \<open>i\<close> of a text cut into \<open>numChunks\<close> pieces of \<open>chunkSize\<close> characters.\<close>

definition chunkJson :: "DecodedChunk \<Rightarrow> json" where
  "chunkJson c = chunkPayload (data c) (meta c)"

definition chunkAt :: "string \<Rightarrow> nat \<Rightarrow> nat \<Rightarrow> string \<Rightarrow> nat \<Rightarrow> DecodedChunk" where
  "chunkAt json chunkSize numChunks cid i =
     \<lparr>data = string_slice json (i * chunkSize) (min (i * chunkSize + chunkSize) (length json)),
      meta = \<lparr>index = int i, total = int numChunks, chunkId = cid\<rparr>\<rparr>"

text \<open>The number of chunks and the chunks of one \<open>encodeStream\<close> call.\<close>

definition streamChunkCount :: "platform \<Rightarrow> json \<Rightarrow> nat \<Rightarrow> nat" where
  "streamChunkCount P d chunkSize = (length (JSON_stringify P d) + chunkSize - 1) div chunkSize"

definition streamChunks :: "platform \<Rightarrow> json \<Rightarrow> nat \<Rightarrow> world \<Rightarrow> DecodedChunk list" where
  "streamChunks P d chunkSize w =
     map (chunkAt (JSON_stringify P d) chunkSize (streamChunkCount P d chunkSize)
            (fst (generateChunkId P w)))
         [0 ..< streamChunkCount P d chunkSize]"

text \<open>The bytes of a chunk's payload that \<open>encode\<close> hands to the compressor.\<close>

definition chunkBytes :: "platform \<Rightarrow> DecodedChunk \<Rightarrow> bytes" where
  "chunkBytes P c = TextEncoder_encode P (JSON_stringify P (chunkJson c))"

section \<open>Metadata round trip\<close>

lemma be32_recompose:
  fixes n :: nat
  assumes "n < 2 ^ 32"
  shows "((n div 2 ^ 24 mod 256 * 256 + n div 2 ^ 16 mod 256) * 256 + n div 2 ^ 8 mod 256) * 256
         + n mod 256 = n"
proof -
  have a: "n div 2 ^ 24 mod 256 = n div 2 ^ 24"
    using assms by (simp add: less_mult_imp_div_less)
  have b: "n div 2 ^ 24 * 256 + n div 2 ^ 16 mod 256 = n div 2 ^ 16"
    using div_mult_mod_eq [of "n div 2 ^ 16" 256] by (simp add: div_mult2_eq [symmetric])
  have c: "n div 2 ^ 16 * 256 + n div 2 ^ 8 mod 256 = n div 2 ^ 8"
    using div_mult_mod_eq [of "n div 2 ^ 8" 256] by (simp add: div_mult2_eq [symmetric])
  have d: "n div 2 ^ 8 * 256 + n mod 256 = n"
    using div_mult_mod_eq [of n 256] by simp
  show ?thesis by (simp only: a b c d)
qed

lemma be32_bytes:
  fixes n :: nat
  assumes "n < 2 ^ 32"
  shows "foldl (\<lambda>acc b. acc * 256 + unat b) 0
           [of_nat (n div 2 ^ 24), of_nat (n div 2 ^ 16), of_nat (n div 2 ^ 8), of_nat n :: byte] = n"
proof -
  have b: "unat (of_nat k :: byte) = k mod 256" for k
    by (simp add: unat_of_nat)
  have a: "n div 16777216 mod 256 = n div 16777216"
    using assms by (simp add: less_mult_imp_div_less)
  show ?thesis
    using be32_recompose [OF assms] by (simp add: b a)
qed

lemma getUint32_setUint32:
  assumes "0 \<le> x" "x < 2 ^ 32"
  shows "getUint32 (setUint32 x @ rest) = x"
proof -
  define n where "n = nat x"
  have n: "n < 2 ^ 32" "x mod 2 ^ 32 = int n" "int n = x"
    using assms by (simp_all add: n_def nat_less_iff)
  have "getUint32 (setUint32 x @ rest) = int n"
    unfolding getUint32_def setUint32_def n(2)
    using be32_bytes [OF n(1)] by (simp add: Let_def)
  then show ?thesis by (simp add: n(3))
qed

lemma algorithm_id_roundtrip:
  "ALGORITHM_MAP a = Some i \<Longrightarrow> ALGORITHM_REVERSE_MAP (unat (of_nat i :: byte)) = Some a"
  by (auto simp: ALGORITHM_MAP_def ALGORITHM_REVERSE_MAP_def split: if_splits)

lemma compression_id_roundtrip:
  "COMPRESSION_MAP c = Some i \<Longrightarrow> COMPRESSION_REVERSE_MAP (unat (of_nat i :: byte)) = Some c"
  by (auto simp: COMPRESSION_MAP_def COMPRESSION_REVERSE_MAP_def split: if_splits)

lemma length_setUint32 [simp]: "length (setUint32 x) = 4"
  by (simp add: setUint32_def Let_def)

lemma getUint32_setUint32_nil: "0 \<le> x \<Longrightarrow> x < 2 ^ 32 \<Longrightarrow> getUint32 (setUint32 x) = x"
  using getUint32_setUint32 [of x "[]"] by simp

lemma unpack_pack:
  assumes a: "ALGORITHM_MAP (algorithm m) = Some ai"
    and c: "COMPRESSION_MAP (compression m) = Some ci"
    and v: "version m < 256"
    and t: "\<And>t. timestamp m = Some t \<Longrightarrow> 0 \<le> t div 1000 \<and> t div 1000 < 2 ^ 32"
    and l: "\<And>l. ttl m = Some l \<Longrightarrow> 0 \<le> l \<and> l < 2 ^ 32"
    and p: "packMetadata m = Inr bs"
  shows "unpackMetadata (bs @ rest)
         = Inr (m\<lparr>timestamp := map_option (\<lambda>t. t div 1000 * 1000) (timestamp m)\<rparr>)"
proof -
  have v': "unat (of_nat (version m) :: byte) = version m"
    using v by (simp add: unat_of_nat)
  show ?thesis
  proof (cases "timestamp m")
    case None
    show ?thesis
    proof (cases "ttl m")
      case N2: None
      with None p show ?thesis
        using algorithm_id_roundtrip [OF a] compression_id_roundtrip [OF c]
        by (auto simp: packMetadata_def unpackMetadata_def a c v' concatBytes_def Let_def
              FLAG_HAS_TIMESTAMP_def FLAG_HAS_TTL_def TokenMetadata.equality)
    next
      case (Some l')
      with None p l [of l'] show ?thesis
        using algorithm_id_roundtrip [OF a] compression_id_roundtrip [OF c]
        by (auto simp: packMetadata_def unpackMetadata_def a c v' concatBytes_def Let_def
              FLAG_HAS_TIMESTAMP_def FLAG_HAS_TTL_def sliceBytes_def getUint32_setUint32_nil TokenMetadata.equality)
    qed
  next
    case (Some t')
    show ?thesis
    proof (cases "ttl m")
      case None
      with Some p t [of t'] show ?thesis
        using algorithm_id_roundtrip [OF a] compression_id_roundtrip [OF c]
        by (auto simp: packMetadata_def unpackMetadata_def a c v' concatBytes_def Let_def
              FLAG_HAS_TIMESTAMP_def FLAG_HAS_TTL_def sliceBytes_def getUint32_setUint32_nil TokenMetadata.equality)
    next
      case S2: (Some l')
      with Some p t [of t'] l [of l'] show ?thesis
        using algorithm_id_roundtrip [OF a] compression_id_roundtrip [OF c]
        by (auto simp: packMetadata_def unpackMetadata_def a c v' concatBytes_def Let_def
              FLAG_HAS_TIMESTAMP_def FLAG_HAS_TTL_def sliceBytes_def getUint32_setUint32_nil TokenMetadata.equality)
    qed
  qed
qed


lemma pack_succeeds:
  assumes "ALGORITHM_MAP (algorithm m) \<noteq> None" "COMPRESSION_MAP (compression m) \<noteq> None"
  shows "\<exists>bs. packMetadata m = Inr bs"
  using assms by (auto simp: packMetadata_def Let_def)

text \<open>
  C7.  For a metadata record whose algorithm and compression ids are in the tables, whose
  version fits in one byte and whose timestamp (in whole seconds) and ttl fit in 32 bits,
  packing succeeds and unpacking the packed bytes gives the record back, with the
  timestamp rounded down to whole seconds and every other field, and the presence of the
  two optional fields, unchanged.
\<close>

theorem metadata_roundtrip:
  assumes "ALGORITHM_MAP (algorithm m) \<noteq> None"
    and "COMPRESSION_MAP (compression m) \<noteq> None"
    and "version m < 256"
    and "case timestamp m of None \<Rightarrow> True | Some t \<Rightarrow> fits_uint32 (t div 1000)"
    and "case ttl m of None \<Rightarrow> True | Some l \<Rightarrow> fits_uint32 l"
  shows "\<exists>bs. packMetadata m = Inr bs
           \<and> unpackMetadata bs
               = Inr (m\<lparr>timestamp := map_option (\<lambda>t. t div 1000 * 1000) (timestamp m)\<rparr>)"
proof -
  obtain ai ci where a: "ALGORITHM_MAP (algorithm m) = Some ai"
    and c: "COMPRESSION_MAP (compression m) = Some ci"
    using assms(1,2) by auto
  obtain bs where p: "packMetadata m = Inr bs"
    using pack_succeeds [OF assms(1,2)] by blast
  have "unpackMetadata (bs @ [])
        = Inr (m\<lparr>timestamp := map_option (\<lambda>t. t div 1000 * 1000) (timestamp m)\<rparr>)"
    using assms(4,5) by (intro unpack_pack [OF a c assms(3) _ _ p]) (simp_all add: fits_uint32_def)
  with p show ?thesis by simp
qed

theorem metadata_roundtrip_witness:
  "ALGORITHM_MAP ''aes-gcm-256'' \<noteq> None \<and> COMPRESSION_MAP ''brotli'' \<noteq> None
   \<and> (1::nat) < 256 \<and> fits_uint32 (1700000000123 div 1000) \<and> fits_uint32 3600
   \<and> (\<exists>bs. packMetadata \<lparr>version = 1, algorithm = ''aes-gcm-256'', compression = ''brotli'',
                          timestamp = Some 1700000000123, ttl = Some 3600\<rparr> = Inr bs
          \<and> unpackMetadata bs
              = Inr \<lparr>version = 1, algorithm = ''aes-gcm-256'', compression = ''brotli'',
                     timestamp = Some 1700000000000, ttl = Some 3600\<rparr>)"
proof -
  have h: "ALGORITHM_MAP ''aes-gcm-256'' \<noteq> None" "COMPRESSION_MAP ''brotli'' \<noteq> None"
    "fits_uint32 (1700000000123 div 1000)" "fits_uint32 3600"
    by (simp_all add: ALGORITHM_MAP_def COMPRESSION_MAP_def fits_uint32_def)
  show ?thesis
    using h metadata_roundtrip [of "\<lparr>version = 1, algorithm = ''aes-gcm-256'',
        compression = ''brotli'', timestamp = Some 1700000000123, ttl = Some 3600\<rparr>"]
    by simp
qed

section \<open>URL-safe base64 round trip\<close>

lemma alphabet_excludes:
  "c \<in> base64_alphabet \<Longrightarrow> c \<noteq> CHR ''='' \<and> c \<noteq> CHR ''-'' \<and> c \<noteq> CHR ''_''"
  by (auto simp: base64_alphabet_def)


lemma urlsafe_body:
  assumes "set body \<subseteq> base64_alphabet"
  shows "filter (\<lambda>c. c \<noteq> CHR ''='')
           (replaceChar CHR ''/'' CHR ''_'' (replaceChar CHR ''+'' CHR ''-'' (body @ replicate k CHR ''='')))
         = map urlsafe body"
proof -
  have "filter (\<lambda>c. c \<noteq> CHR ''='') (map urlsafe body) = map urlsafe body"
    using assms alphabet_excludes by (induction body) (auto simp: urlsafe_def)
  moreover have "replaceChar CHR ''/'' CHR ''_'' (replaceChar CHR ''+'' CHR ''-'' xs) = map urlsafe xs" for xs
    by (induction xs) (auto simp: replaceChar_def urlsafe_def)
  ultimately show ?thesis
    by (simp add: urlsafe_def)
qed

lemma unurlsafe_body:
  assumes "set body \<subseteq> base64_alphabet"
  shows "replaceChar CHR ''_'' CHR ''/'' (replaceChar CHR ''-'' CHR ''+'' (map urlsafe body)) = body"
  using assms alphabet_excludes by (induction body) (auto simp: replaceChar_def urlsafe_def)

lemma padding_restored:
  fixes n k :: nat
  assumes "(n + k) mod 4 = 0" "k < 4"
  shows "(if n mod 4 > 0 then 4 - n mod 4 else 0) = k"
  using assms by presburger

lemma base64_codecD:
  assumes "base64_codec enc dec"
  shows "enc [] = []"
    and "\<exists>body k. enc bs = body @ replicate k CHR ''=''
        \<and> set body \<subseteq> base64_alphabet \<and> k < 4 \<and> length (enc bs) mod 4 = 0"
    and "dec (enc bs) = Some bs"
proof -
  show "enc [] = []"
    using assms unfolding base64_codec_def by (rule conjunct1)
  from assms have "\<forall>bs. \<exists>body k. enc bs = body @ replicate k CHR ''=''
        \<and> set body \<subseteq> base64_alphabet \<and> k < 4 \<and> length (enc bs) mod 4 = 0 \<and> dec (enc bs) = Some bs"
    unfolding base64_codec_def by (rule conjunct2)
  then have *: "\<exists>body k. enc bs = body @ replicate k CHR ''=''
        \<and> set body \<subseteq> base64_alphabet \<and> k < 4 \<and> length (enc bs) mod 4 = 0 \<and> dec (enc bs) = Some bs"
    by (rule spec)
  from * show "\<exists>body k. enc bs = body @ replicate k CHR ''=''
        \<and> set body \<subseteq> base64_alphabet \<and> k < 4 \<and> length (enc bs) mod 4 = 0"
    by (elim exE conjE, intro exI conjI) assumption+
  from * show "dec (enc bs) = Some bs"
    by (elim exE conjE)
qed

lemma base64url_codec_roundtrip:
  assumes "base64_codec enc dec"
  shows "(let u = filter (\<lambda>c. c \<noteq> CHR ''='')
                    (replaceChar CHR ''/'' CHR ''_'' (replaceChar CHR ''+'' CHR ''-'' (enc bs)))
          in if u = [] then bs = []
             else let base64 = replaceChar CHR ''_'' CHR ''/'' (replaceChar CHR ''-'' CHR ''+'' u);
                      padding = length base64 mod 4
                  in dec (if padding > 0 then base64 @ replicate (4 - padding) CHR ''='' else base64)
                     = Some bs)"
proof -
  from base64_codecD(2) [OF assms, of bs]
  obtain body k where e: "enc bs = body @ replicate k CHR ''=''"
    and b: "set body \<subseteq> base64_alphabet" and k: "k < 4"
    and l: "length (enc bs) mod 4 = 0"
    by auto
  note d = base64_codecD(3) [OF assms, of bs]
  note e0 = base64_codecD(1) [OF assms]
  have d0: "dec (enc []) = Some []"
    by (rule base64_codecD(3) [OF assms])
  have p: "(if length body mod 4 > 0 then 4 - length body mod 4 else 0) = k"
    using l k by (intro padding_restored) (simp_all add: e)
  show ?thesis
  proof (cases "body = []")
    case True
    with p have "k = 0" by simp
    with True e have "enc bs = []" by simp
    with d d0 e0 have "bs = []" by simp
    then show ?thesis by (simp add: e0 replaceChar_def)
  next
    case False
    have "dec (if length body mod 4 > 0 then body @ replicate (4 - length body mod 4) CHR ''='' else body)
          = Some bs"
      using p d e by (auto split: if_splits)
    with False show ?thesis
      by (simp add: e urlsafe_body [OF b] unurlsafe_body [OF b] Let_def)
  qed
qed

lemma decodeBase64Url_encodeBase64Url:
  assumes "base64_ok P" and "encodeBase64Url P bs = Inr tok"
  shows "decodeBase64Url P tok = Inr bs"
proof (cases "has_buffer P")
  case True
  with assms(1) have c: "base64_codec (Buffer_toBase64 P) (\<lambda>s. Some (Buffer_fromBase64 P s))"
    by (simp add: base64_ok_def)
  from assms(2) True have t: "tok = filter (\<lambda>c. c \<noteq> CHR ''='')
      (replaceChar CHR ''/'' CHR ''_'' (replaceChar CHR ''+'' CHR ''-'' (Buffer_toBase64 P bs)))"
    by (auto simp: encodeBase64Url_def)
  show ?thesis
    using base64url_codec_roundtrip [OF c, of bs] True
    by (auto simp: t decodeBase64Url_def Let_def)
next
  case False
  with assms(1) have c: "base64_codec (btoa P) (atob P)"
    by (simp add: base64_ok_def)
  from assms(2) False have t: "tok = filter (\<lambda>c. c \<noteq> CHR ''='')
      (replaceChar CHR ''/'' CHR ''_'' (replaceChar CHR ''+'' CHR ''-'' (btoa P bs)))"
    by (auto simp: encodeBase64Url_def btoa_spread_def split: if_splits)
  show ?thesis
    using base64url_codec_roundtrip [OF c, of bs] False
    by (auto simp: t decodeBase64Url_def Let_def)
qed

lemma encodeBase64Url_outcome:
  "(\<exists>tok. encodeBase64Url P bs = Inr tok)
   \<or> encodeBase64Url P bs = Inl RangeError \<and> \<not> has_buffer P \<and> spread_limit P < length bs"
  by (auto simp: encodeBase64Url_def btoa_spread_def)

section \<open>Compression round trip\<close>

lemma btoa_nonempty:
  assumes "base64_codec enc dec" "x \<noteq> []"
  shows "enc x \<noteq> []"
proof
  assume "enc x = []"
  with base64_codecD(3) [OF assms(1), of x] have "dec [] = Some x" by simp
  moreover from base64_codecD(1) [OF assms(1)] base64_codecD(3) [OF assms(1), of "[]"]
  have "dec [] = Some []" by simp
  ultimately show False using assms(2) by simp
qed

lemma LZString_roundtrip:
  assumes "compression_ok P" and "LZString_compress P x = Inr y"
  shows "LZString_decompress P y = Inr x"
proof (cases "x = []")
  case True
  with assms(2) show ?thesis by (simp add: LZString_compress_def LZString_decompress_def)
next
  case False
  from assms(1) have c: "base64_codec (btoa P) (atob P)"
    and l: "LZ_compressToUint8Array P (btoa P x) \<noteq> []"
      "LZ_decompressFromUint8Array P (LZ_compressToUint8Array P (btoa P x)) = Some (btoa P x)"
    by (simp_all add: compression_ok_def)
  from assms(2) False have y: "y = LZ_compressToUint8Array P (btoa P x)"
    by (auto simp: LZString_compress_def btoa_spread_def split: if_splits)
  show ?thesis
    using False l btoa_nonempty [OF c False] base64_codecD(3) [OF c, of x]
    by (simp add: y LZString_decompress_def)
qed

lemma LZString_compress_outcome:
  "(\<exists>y. LZString_compress P x = Inr y)
   \<or> LZString_compress P x = Inl RangeError \<and> spread_limit P < length x"
  by (auto simp: LZString_compress_def btoa_spread_def)

lemma decompress_compress:
  assumes "compression_ok P" "compress P x c = Inr y"
  shows "decompress P y c = Inr x"
proof -
  from assms(1) have b: "brotliDecompress P (brotliCompress P x) = Some x"
    and z: "inflate P (deflate P x) = Some x"
    by (simp_all add: compression_ok_def)
  note L = LZString_roundtrip [OF assms(1), of x y]
  show ?thesis
    using assms(2) b z L
    by (auto simp: compress_def decompress_def Brotli_compress_def Brotli_decompress_def
          Zlib_compress_def Zlib_decompress_def split: if_splits)
qed

lemma compress_outcome:
  assumes "c \<in> {''none'', ''lz-string'', ''brotli''} \<or> c = ''zlib'' \<and> is_node P"
  shows "(\<exists>y. compress P x c = Inr y)
         \<or> compress P x c = Inl RangeError \<and> lzPath P c \<and> spread_limit P < length x"
  using assms LZString_compress_outcome [of P x]
  by (auto simp: compress_def Zlib_compress_def Brotli_compress_def lzPath_def)

section \<open>Encryption round trip\<close>

lemma length_randomBytes:
  "randomBytes P n w = Inr (bs, w') \<Longrightarrow> length bs = n \<and> has_csprng P"
  by (auto simp: randomBytes_def split: if_splits)

lemma processKeyMaterial_Inr:
  assumes "processKeyMaterial P secret w = Inr (key, salt, w')"
  shows "case secret of
           RawKey k \<Rightarrow> key = k \<and> length k = 32 \<and> salt = None
         | Passphrase p \<Rightarrow> p \<noteq> [] \<and> (has_subtle P \<or> is_node P)
             \<and> (\<exists>s. salt = Some s \<and> length s = 16 \<and> key = pbkdf2 P (TextEncoder_encode P p) s)"
  using assms
  by (auto simp: processKeyMaterial_def KEY_LENGTH_def SALT_LENGTH_def deriveKeyFromPassword_def
        stringToBytes_def Let_def
        dest!: length_randomBytes split: KeyMaterial.splits if_splits sum.splits prod.splits)

lemma encrypt_Inr:
  assumes "encrypt P pt secret w = Inr (enc, salt, w')"
  shows "\<exists>key. (has_subtle P \<or> is_node P) \<and> length (iv enc) = 12
           \<and> ciphertext enc = fst (aes_gcm_encrypt P key (iv enc) pt)
                                @ snd (aes_gcm_encrypt P key (iv enc) pt)
           \<and> (case secret of
                 RawKey k \<Rightarrow> key = k \<and> length k = 32 \<and> salt = None
               | Passphrase p \<Rightarrow> p \<noteq> []
                   \<and> (\<exists>s. salt = Some s \<and> length s = 16
                          \<and> key = pbkdf2 P (TextEncoder_encode P p) s))"
proof -
  from assms obtain key w1 iv0 where
    k: "processKeyMaterial P secret w = Inr (key, salt, w1)"
    and r: "randomBytes P IV_LENGTH w1 = Inr (iv0, w')"
    and a: "has_subtle P \<or> is_node P"
    and e: "enc = \<lparr>iv = iv0, ciphertext = fst (aes_gcm_encrypt P key iv0 pt)
                                         @ snd (aes_gcm_encrypt P key iv0 pt)\<rparr>"
    by (auto simp: encrypt_def split: sum.splits prod.splits if_splits)
  from length_randomBytes [OF r] have "length iv0 = 12" by (simp add: IV_LENGTH_def)
  with processKeyMaterial_Inr [OF k] a e show ?thesis
    by (auto split: KeyMaterial.splits)
qed

lemma open_sealed:
  assumes "aead_ok P"
  shows "open_ciphertext P key iv0 (fst (aes_gcm_encrypt P key iv0 pt)
                                    @ snd (aes_gcm_encrypt P key iv0 pt)) = Inr pt"
proof -
  from assms have t: "length (snd (aes_gcm_encrypt P key iv0 pt)) = 16"
    and d: "aes_gcm_decrypt P key iv0 (fst (aes_gcm_encrypt P key iv0 pt))
              (snd (aes_gcm_encrypt P key iv0 pt)) = Some pt"
    by (simp_all add: aead_ok_def TAG_LENGTH_def)
  show ?thesis
    using t d by (simp add: open_ciphertext_def TAG_LENGTH_def sliceBytes_def)
qed

lemma decrypt_encrypt:
  assumes "aead_ok P" "encrypt P pt secret w = Inr (enc, salt, w')"
  shows "decrypt P enc secret salt = Inr pt"
proof -
  from encrypt_Inr [OF assms(2)] obtain key where
    a: "has_subtle P \<or> is_node P" and i: "length (iv enc) = 12"
    and c: "ciphertext enc = fst (aes_gcm_encrypt P key (iv enc) pt)
                              @ snd (aes_gcm_encrypt P key (iv enc) pt)"
    and s: "case secret of
              RawKey k \<Rightarrow> key = k \<and> length k = 32 \<and> salt = None
            | Passphrase p \<Rightarrow> p \<noteq> []
                \<and> (\<exists>s. salt = Some s \<and> length s = 16
                       \<and> key = pbkdf2 P (TextEncoder_encode P p) s)"
    by blast
  have o: "open_ciphertext P key (iv enc) (ciphertext enc) = Inr pt"
    unfolding c by (rule open_sealed [OF assms(1)])
  show ?thesis
    using a i s o
    by (auto simp: decrypt_def KEY_LENGTH_def IV_LENGTH_def deriveKeyFromPassword_def
          stringToBytes_def Let_def split: KeyMaterial.splits)
qed

lemma encrypt_succeeds:
  assumes "services_available P" "validSecret secret"
  shows "\<exists>enc salt w'. encrypt P pt secret w = Inr (enc, salt, w')"
  using assms
  by (auto simp: services_available_def validSecret_def encrypt_def processKeyMaterial_def
        randomBytes_def deriveKeyFromPassword_def Let_def split: KeyMaterial.splits prod.splits)

section \<open>What a token is made of\<close>

lemma getUint32_setUint32_mod: "getUint32 (setUint32 x @ rest) = x mod 2 ^ 32"
proof -
  have "setUint32 x = setUint32 (x mod 2 ^ 32)"
    by (simp add: setUint32_def)
  then show ?thesis
    using getUint32_setUint32 [of "x mod 2 ^ 32" rest] by simp
qed

lemma unpack_pack_stored:
  assumes p: "packMetadata m = Inr bs"
  shows "unpackMetadata (bs @ rest) = Inr (stored m)" and "length bs = getMetadataSize (stored m)"
proof -
  from p obtain ai ci where a: "ALGORITHM_MAP (algorithm m) = Some ai"
    and c: "COMPRESSION_MAP (compression m) = Some ci"
    by (auto simp: packMetadata_def split: option.splits)
  have v: "unat (of_nat (version m) :: byte) = version m mod 256"
    by (simp add: unat_of_nat)
  have g: "getUint32 (setUint32 x) = x mod 2 ^ 32" for x
    using getUint32_setUint32_mod [of x "[]"] by simp
  note R = algorithm_id_roundtrip [OF a] compression_id_roundtrip [OF c]
  note D = packMetadata_def unpackMetadata_def a c v concatBytes_def Let_def stored_def
    FLAG_HAS_TIMESTAMP_def FLAG_HAS_TTL_def sliceBytes_def g TokenMetadata.equality
    getMetadataSize_def
  show "unpackMetadata (bs @ rest) = Inr (stored m)"
  proof (cases "timestamp m")
    case None
    show ?thesis
    proof (cases "ttl m")
      case N2: None
      with None p R show ?thesis by (auto simp: D)
    next
      case (Some l')
      with None p R show ?thesis by (auto simp: D)
    qed
  next
    case (Some t')
    show ?thesis
    proof (cases "ttl m")
      case None
      with Some p R show ?thesis by (auto simp: D)
    next
      case S2: (Some l')
      with Some p R show ?thesis by (auto simp: D)
    qed
  qed
  show "length bs = getMetadataSize (stored m)"
    using p by (auto simp: D split: option.splits)
qed

lemma createDefaultMetadata_fields:
  assumes "createDefaultMetadata compr alg includeTs ttl0 w = (m, w')"
  shows "version m = 1" "algorithm m = alg" "compression m = compr" "ttl m = ttl0"
    "timestamp m = (if includeTs then Some (clock w (clock_reads w)) else None)"
  using assms
  by (auto simp: createDefaultMetadata_def Date_now_def Let_def split: if_splits option.splits)

lemma encode_parts:
  assumes "encode P d secret options w = Inr (tok, w')"
  shows "\<exists>compressed enc salt w1 m mb.
           compress P (TextEncoder_encode P (JSON_stringify P d)) (chosenCompression options)
             = Inr compressed
         \<and> encrypt P compressed secret w = Inr (enc, salt, w1)
         \<and> createDefaultMetadata (chosenCompression options) (chosenAlgorithm options)
              (includeTimestamp options) (opt_ttl options) w1 = (m, w')
         \<and> packMetadata m = Inr mb
         \<and> encodeBase64Url P
               (mb @ (case salt of None \<Rightarrow> [] | Some s \<Rightarrow> s) @ iv enc @ ciphertext enc)
             = Inr tok"
  using assms
  by (auto simp: encode_def Let_def chosenCompression_def chosenAlgorithm_def stringToBytes_def
        concatBytes_def split: sum.splits prod.splits option.splits)

section \<open>Decoding what was encoded\<close>

lemma validateVersion_stored:
  "version m = 1 \<Longrightarrow> validateVersion (stored m) = Inr ()"
  by (simp add: validateVersion_def isSupportedVersion_def SUPPORTED_VERSIONS_def stored_def)

lemma decode_split_parts:
  assumes b: "base64_ok P"
    and p: "packMetadata m = Inr mb" and v: "version m = 1"
    and i: "length iv0 = 12"
    and s: "case secret of RawKey k \<Rightarrow> salt = None
            | Passphrase p \<Rightarrow> (\<exists>s. salt = Some s \<and> length s = 16)"
    and e: "encodeBase64Url P (mb @ (case salt of None \<Rightarrow> [] | Some s \<Rightarrow> s) @ iv0 @ ct)
            = Inr tok"
  shows "decode_split P tok secret = Inr (stored m, salt, \<lparr>iv = iv0, ciphertext = ct\<rparr>)"
proof -
  note B = decodeBase64Url_encodeBase64Url [OF b e]
  note U = unpack_pack_stored [OF p]
  have l: "4 \<le> length mb" using U(2) by (simp add: getMetadataSize_def)
  show ?thesis
  proof (cases secret)
    case (RawKey k)
    with s have "salt = None" by simp
    then show ?thesis
      using RawKey U(1) [of "iv0 @ ct"] U(2) l i validateVersion_stored [OF v] B
      by (simp add: decode_split_def sliceBytes_def)
  next
    case (Passphrase pw)
    with s obtain sb where "salt = Some sb" "length sb = 16" by auto
    then show ?thesis
      using Passphrase U(1) [of "sb @ iv0 @ ct"] U(2) l i validateVersion_stored [OF v] B
      by (simp add: decode_split_def sliceBytes_def)
  qed
qed

lemma decode_split_encode:
  assumes "base64_ok P" "encode P d secret options w = Inr (tok, w')"
  shows "\<exists>compressed enc salt w1 m.
           compress P (TextEncoder_encode P (JSON_stringify P d)) (chosenCompression options)
             = Inr compressed
         \<and> encrypt P compressed secret w = Inr (enc, salt, w1)
         \<and> createDefaultMetadata (chosenCompression options) (chosenAlgorithm options)
              (includeTimestamp options) (opt_ttl options) w1 = (m, w')
         \<and> decode_split P tok secret = Inr (stored m, salt, enc)"
proof -
  from encode_parts [OF assms(2)] obtain compressed enc salt w1 m mb where
    c: "compress P (TextEncoder_encode P (JSON_stringify P d)) (chosenCompression options)
          = Inr compressed"
    and e: "encrypt P compressed secret w = Inr (enc, salt, w1)"
    and m: "createDefaultMetadata (chosenCompression options) (chosenAlgorithm options)
              (includeTimestamp options) (opt_ttl options) w1 = (m, w')"
    and p: "packMetadata m = Inr mb"
    and t: "encodeBase64Url P
              (mb @ (case salt of None \<Rightarrow> [] | Some s \<Rightarrow> s) @ iv enc @ ciphertext enc)
            = Inr tok"
    by blast
  from encrypt_Inr [OF e] have i: "length (iv enc) = 12"
    and s: "case secret of RawKey k \<Rightarrow> salt = None
            | Passphrase p \<Rightarrow> (\<exists>s. salt = Some s \<and> length s = 16)"
    by (auto split: KeyMaterial.splits)
  have "decode_split P tok secret = Inr (stored m, salt, \<lparr>iv = iv enc, ciphertext = ciphertext enc\<rparr>)"
    by (rule decode_split_parts [OF assms(1) p createDefaultMetadata_fields(1) [OF m] i s t])
  with c e m show ?thesis by auto
qed

lemma decode_open_sealed:
  assumes "aead_ok P" "compression_ok P" "text_ok P" "json_roundtrips P d"
    and c: "compress P (TextEncoder_encode P (JSON_stringify P d)) alg = Inr compressed"
    and e: "encrypt P compressed secret w = Inr (enc, salt, w1)"
    and m: "compression m = alg"
  shows "decode_open P m salt enc secret = Inr d"
proof -
  have t: "TextDecoder_decode P (TextEncoder_encode P (JSON_stringify P d))
           = Some (JSON_stringify P d)"
    using assms(3) by (simp add: text_ok_def)
  show ?thesis
    using decrypt_encrypt [OF assms(1) e] decompress_compress [OF assms(2) c] t assms(4) m
    by (simp add: decode_open_def bytesToString_def json_roundtrips_def)
qed

lemma decode_encode_general:
  assumes ok: "platform_ok P" and j: "json_roundtrips P d"
    and e: "encode P d secret options w = Inr (tok, w')"
  shows "\<exists>m w1. createDefaultMetadata (chosenCompression options) (chosenAlgorithm options)
                  (includeTimestamp options) (opt_ttl options) w1 = (m, w')
          \<and> decode_split P tok secret \<noteq> Inl NotBase64
          \<and> decode P tok secret now
              = (if ttl_expired (stored m) now then Inl TokenExpired else Inr d)"
proof -
  from ok have b: "base64_ok P" and a: "aead_ok P" and c: "compression_ok P" and t: "text_ok P"
    by (simp_all add: platform_ok_def)
  from decode_split_encode [OF b e] obtain compressed enc salt w1 m where
    cc: "compress P (TextEncoder_encode P (JSON_stringify P d)) (chosenCompression options)
          = Inr compressed"
    and ee: "encrypt P compressed secret w = Inr (enc, salt, w1)"
    and mm: "createDefaultMetadata (chosenCompression options) (chosenAlgorithm options)
              (includeTimestamp options) (opt_ttl options) w1 = (m, w')"
    and ds: "decode_split P tok secret = Inr (stored m, salt, enc)"
    by blast
  have "compression (stored m) = chosenCompression options"
    using createDefaultMetadata_fields(3) [OF mm] by (simp add: stored_def)
  from decode_open_sealed [OF a c t j cc ee this]
  have "decode P tok secret now = (if ttl_expired (stored m) now then Inl TokenExpired else Inr d)"
    by (simp add: decode_def ds)
  with mm ds show ?thesis by auto
qed

lemma encode_outcome:
  assumes "services_available P" "validSecret secret"
    and "chosenCompression options \<in> {''none'', ''lz-string'', ''brotli''}
         \<or> chosenCompression options = ''zlib'' \<and> is_node P"
    and "chosenAlgorithm options = ''aes-gcm-256''"
  shows "(\<exists>tok w'. encode P d secret options w = Inr (tok, w'))
         \<or> encode P d secret options w = Inl RangeError
           \<and> (lzPath P (chosenCompression options)
                \<and> spread_limit P < length (TextEncoder_encode P (JSON_stringify P d))
              \<or> \<not> has_buffer P)"
proof -
  from compress_outcome [OF assms(3), of "TextEncoder_encode P (JSON_stringify P d)"]
  consider compressed where
      "compress P (TextEncoder_encode P (JSON_stringify P d)) (chosenCompression options)
          = Inr compressed"
    | "compress P (TextEncoder_encode P (JSON_stringify P d)) (chosenCompression options)
          = Inl RangeError"
      "lzPath P (chosenCompression options)"
      "spread_limit P < length (TextEncoder_encode P (JSON_stringify P d))"
    by blast
  then show ?thesis
  proof cases
    case 1
    from encrypt_succeeds [OF assms(1,2)] obtain enc salt w1 where
      e: "encrypt P compressed secret w = Inr (enc, salt, w1)"
      by blast
    obtain m w2 where m: "createDefaultMetadata (chosenCompression options)
              (chosenAlgorithm options) (includeTimestamp options) (opt_ttl options) w1 = (m, w2)"
      by (cases "createDefaultMetadata (chosenCompression options) (chosenAlgorithm options)
              (includeTimestamp options) (opt_ttl options) w1")
    have "ALGORITHM_MAP (algorithm m) \<noteq> None" "COMPRESSION_MAP (compression m) \<noteq> None"
      using createDefaultMetadata_fields(2,3) [OF m] assms(3,4)
      by (auto simp: ALGORITHM_MAP_def COMPRESSION_MAP_def)
    from pack_succeeds [OF this] obtain mb where p: "packMetadata m = Inr mb"
      by blast
    from encodeBase64Url_outcome [of P
        "mb @ (case salt of None \<Rightarrow> [] | Some s \<Rightarrow> s) @ iv enc @ ciphertext enc"]
    show ?thesis
      using 1 e m p
      by (auto simp: encode_def Let_def stringToBytes_def chosenCompression_def
            chosenAlgorithm_def concatBytes_def split: option.splits)
  next
    case 2
    then show ?thesis
      by (simp add: encode_def Let_def stringToBytes_def chosenCompression_def)
  qed
qed

lemma encode_succeeds:
  assumes "services_available P" "validSecret secret"
    and "chosenCompression options \<in> {''none'', ''lz-string'', ''brotli''}
         \<or> chosenCompression options = ''zlib'' \<and> is_node P"
    and "chosenAlgorithm options = ''aes-gcm-256''"
    and "has_buffer P"
    and "lzPath P (chosenCompression options)
         \<longrightarrow> length (TextEncoder_encode P (JSON_stringify P d)) \<le> spread_limit P"
  shows "\<exists>tok w'. encode P d secret options w = Inr (tok, w')"
  using encode_outcome [OF assms(1-4), of d w] assms(5,6) by auto

section \<open>The reference platform meets the contracts\<close>

text \<open>Standard base64 decodes what it encodes, group by group.\<close>

lemma index_from_nth:
  "distinct xs \<Longrightarrow> n < length xs \<Longrightarrow> index_from i (xs ! n) xs = Some (i + n)"
proof (induction xs arbitrary: i n)
  case Nil
  then show ?case by simp
next
  case (Cons x xs)
  show ?case
  proof (cases n)
    case 0
    then show ?thesis by simp
  next
    case (Suc k)
    with Cons.prems have "xs ! k \<noteq> x" "k < length xs" "distinct xs"
      by auto
    with Cons.IH [of k "i + 1"] Suc show ?thesis by simp
  qed
qed

lemma b64_table_facts: "distinct b64_table" "length b64_table = 64" "CHR ''='' \<notin> set b64_table"
  by (simp_all add: b64_table_def)

lemma b64_index_char: "n < 64 \<Longrightarrow> b64_index (b64_char n) = Some n"
  using index_from_nth [of b64_table n 0] by (simp add: b64_table_facts b64_index_def b64_char_def)

lemma b64_char_in_table: "n < 64 \<Longrightarrow> b64_char n \<in> set b64_table"
  by (simp add: b64_char_def b64_table_facts)

lemma b64_char_not_pad: "n < 64 \<Longrightarrow> b64_char n \<noteq> CHR ''=''"
  using b64_char_in_table [of n] b64_table_facts(3) by auto

lemma sextets3:
  fixes n :: nat
  assumes "n < 2 ^ 24"
  shows "((n div 262144 * 64 + n div 4096 mod 64) * 64 + n div 64 mod 64) * 64 + n mod 64 = n"
    and "n div 262144 < 64"
proof -
  have b: "n div 262144 * 64 + n div 4096 mod 64 = n div 4096"
    using div_mult_mod_eq [of "n div 4096" 64] by (simp add: div_mult2_eq [symmetric])
  have c: "n div 4096 * 64 + n div 64 mod 64 = n div 64"
    using div_mult_mod_eq [of "n div 64" 64] by (simp add: div_mult2_eq [symmetric])
  have d: "n div 64 * 64 + n mod 64 = n"
    using div_mult_mod_eq [of n 64] by simp
  show "((n div 262144 * 64 + n div 4096 mod 64) * 64 + n div 64 mod 64) * 64 + n mod 64 = n"
    by (simp only: b c d)
  show "n div 262144 < 64"
    using assms by (simp add: less_mult_imp_div_less)
qed

lemma bytes3:
  fixes a b c :: byte
  defines "n \<equiv> unat a * 65536 + unat b * 256 + unat c"
  shows "n < 2 ^ 24" "of_nat (n div 65536) = a" "of_nat (n div 256) = b" "of_nat n = c"
proof -
  have l: "unat a < 256" "unat b < 256" "unat c < 256"
    using unsigned_less [of a, where ?'a = nat] unsigned_less [of b, where ?'a = nat] unsigned_less [of c, where ?'a = nat] by simp_all
  show "n < 2 ^ 24" using l by (simp add: n_def)
  have "n div 256 = unat a * 256 + unat b" using l by (simp add: n_def)
  moreover have "n div 65536 = unat a" using l by (simp add: n_def)
  moreover have z: "(256 :: byte) = 0" "(65536 :: byte) = 0" by simp_all
  ultimately show "of_nat (n div 65536) = a" "of_nat (n div 256) = b"
    by (simp_all add: z)
  show "of_nat n = c" by (simp add: n_def z)
qed

lemma bytes2:
  fixes a b :: byte
  defines "n \<equiv> unat a * 1024 + unat b * 4"
  shows "n div 4096 < 64" "(n div 4096 * 64 + n div 64 mod 64) * 64 + n mod 64 = n"
    "of_nat (n div 1024) = a" "of_nat (n div 4) = b"
proof -
  have l: "unat a < 256" "unat b < 256"
    using unsigned_less [of a, where ?'a = nat] unsigned_less [of b, where ?'a = nat] by simp_all
  have c: "n div 4096 * 64 + n div 64 mod 64 = n div 64"
    using div_mult_mod_eq [of "n div 64" 64] by (simp add: div_mult2_eq [symmetric])
  have d: "n div 64 * 64 + n mod 64 = n"
    using div_mult_mod_eq [of n 64] by simp
  show "n div 4096 < 64" using l by (simp add: n_def less_mult_imp_div_less)
  show "(n div 4096 * 64 + n div 64 mod 64) * 64 + n mod 64 = n"
    by (simp only: c d)
  have "n div 1024 = unat a" using l by (simp add: n_def)
  moreover have "n div 4 = unat a * 256 + unat b" by (simp add: n_def)
  moreover have z: "(256 :: byte) = 0" by simp
  ultimately show "of_nat (n div 1024) = a" "of_nat (n div 4) = b"
    by (simp_all add: z)
qed

lemma bytes1:
  fixes a :: byte
  defines "n \<equiv> unat a * 16"
  shows "n div 64 < 64" "n div 64 * 64 + n mod 64 = n" "of_nat (n div 16) = a"
proof -
  have l: "unat a < 256"
    using unsigned_less [of a, where ?'a = nat] by simp
  show "n div 64 < 64" using l by (simp add: n_def less_mult_imp_div_less)
  show "n div 64 * 64 + n mod 64 = n" by simp
  show "of_nat (n div 16) = a" by (simp add: n_def)
qed

lemma decode_group3:
  assumes "x < 64" "y < 64" "z < 64" "u < 64"
    and "n = ((x * 64 + y) * 64 + z) * 64 + u"
    and "b64_decode rest = Some bs"
  shows "b64_decode (b64_char x # b64_char y # b64_char z # b64_char u # rest)
         = Some (of_nat (n div 65536) # of_nat (n div 256) # of_nat n # bs)"
  using assms b64_char_not_pad [of z] b64_char_not_pad [of u]
  by (simp add: b64_index_char Let_def)

lemma decode_group2:
  assumes "x < 64" "y < 64" "z < 64"
    and "n = (x * 64 + y) * 64 + z"
  shows "b64_decode [b64_char x, b64_char y, b64_char z, CHR ''='']
         = Some [of_nat (n div 1024), of_nat (n div 4)]"
  using assms b64_char_not_pad [of z]
  by (simp add: b64_index_char Let_def)

lemma decode_group1:
  assumes "x < 64" "y < 64"
    and "n = x * 64 + y"
  shows "b64_decode [b64_char x, b64_char y, CHR ''='', CHR ''='']
         = Some [of_nat (n div 16)]"
  using assms by (simp add: b64_index_char Let_def)

lemma b64_decode_encode: "b64_decode (b64_encode bs) = Some bs"
proof (induction bs rule: b64_encode.induct)
  case (1 a b c rest)
  define n where "n = unat a * 65536 + unat b * 256 + unat c"
  note B = bytes3 [of a b c, folded n_def]
  note S = sextets3 [OF B(1)]
  have "b64_decode (b64_encode (a # b # c # rest))
        = Some (of_nat (n div 65536) # of_nat (n div 256) # of_nat n # rest)"
    unfolding b64_encode.simps Let_def n_def [symmetric] append_Cons append_Nil
    by (rule decode_group3 [OF S(2) _ _ _ S(1) [symmetric] 1]) simp_all
  then show ?case by (simp only: B)
next
  case (2 a b)
  define n where "n = unat a * 1024 + unat b * 4"
  note B = bytes2 [of a b, folded n_def]
  have "b64_decode (b64_encode [a, b]) = Some [of_nat (n div 1024), of_nat (n div 4)]"
    unfolding b64_encode.simps Let_def n_def [symmetric]
    by (rule decode_group2 [OF B(1) _ _ B(2) [symmetric]]) simp_all
  then show ?case by (simp only: B)
next
  case (3 a)
  define n where "n = unat a * 16"
  note B = bytes1 [of a, folded n_def]
  have "b64_decode (b64_encode [a]) = Some [of_nat (n div 16)]"
    unfolding b64_encode.simps Let_def n_def [symmetric]
    by (rule decode_group1 [OF B(1) _ B(2) [symmetric]]) simp_all
  then show ?case by (simp only: B)
next
  case 4
  show ?case by simp
qed


lemma b64_table_alphabet: "set b64_table = base64_alphabet"
  by (simp add: b64_table_def base64_alphabet_def)

lemma b64_encode_shape:
  "\<exists>body k. b64_encode bs = body @ replicate k CHR ''='' \<and> set body \<subseteq> base64_alphabet
      \<and> k < 4 \<and> length (b64_encode bs) mod 4 = 0"
proof (induction bs rule: b64_encode.induct)
  case (1 a b c rest)
  from 1 [OF refl] obtain body k where r: "b64_encode rest = body @ replicate k CHR ''=''"
    "set body \<subseteq> base64_alphabet" "k < 4" "length (b64_encode rest) mod 4 = 0"
    by (elim exE conjE)
  define n where "n = unat a * 65536 + unat b * 256 + unat c"
  define g where "g = [b64_char (n div 262144), b64_char (n div 4096 mod 64),
          b64_char (n div 64 mod 64), b64_char (n mod 64)]"
  have e: "b64_encode (a # b # c # rest) = g @ b64_encode rest"
    by (simp add: g_def n_def Let_def)
  have "n div 262144 < 64"
    using sextets3(2) [OF bytes3(1) [of a b c]] by (simp add: n_def)
  then have "set g \<subseteq> base64_alphabet"
    using b64_char_in_table by (simp add: g_def b64_table_alphabet)
  moreover have "length g = 4" by (simp add: g_def)
  ultimately have "b64_encode (a # b # c # rest) = (g @ body) @ replicate k CHR ''=''
      \<and> set (g @ body) \<subseteq> base64_alphabet \<and> k < 4
      \<and> length (b64_encode (a # b # c # rest)) mod 4 = 0"
    using r e by simp
  then show ?case by (intro exI [of _ "g @ body"] exI [of _ k])
next
  case (2 a b)
  define n where "n = unat a * 1024 + unat b * 4"
  define g where "g = [b64_char (n div 4096), b64_char (n div 64 mod 64), b64_char (n mod 64)]"
  have e: "b64_encode [a, b] = g @ replicate 1 CHR ''=''"
    by (simp add: g_def n_def Let_def)
  have "n div 4096 < 64" using bytes2(1) [of a b] by (simp add: n_def)
  then have "set g \<subseteq> base64_alphabet"
    using b64_char_in_table by (simp add: g_def b64_table_alphabet)
  moreover have "length g = 3" by (simp add: g_def)
  ultimately have "b64_encode [a, b] = g @ replicate 1 CHR ''='' \<and> set g \<subseteq> base64_alphabet
      \<and> (1::nat) < 4 \<and> length (b64_encode [a, b]) mod 4 = 0"
    using e by simp
  then show ?case by (intro exI [of _ g] exI [of _ 1])
next
  case (3 a)
  define n where "n = unat a * 16"
  define g where "g = [b64_char (n div 64), b64_char (n mod 64)]"
  have e: "b64_encode [a] = g @ replicate 2 CHR ''=''"
    by (simp add: g_def n_def Let_def numeral_2_eq_2)
  have "n div 64 < 64" using bytes1(1) [of a] by (simp add: n_def)
  then have "set g \<subseteq> base64_alphabet"
    using b64_char_in_table by (simp add: g_def b64_table_alphabet)
  moreover have "length g = 2" by (simp add: g_def)
  ultimately have "b64_encode [a] = g @ replicate 2 CHR ''='' \<and> set g \<subseteq> base64_alphabet
      \<and> (2::nat) < 4 \<and> length (b64_encode [a]) mod 4 = 0"
    using e by simp
  then show ?case by (intro exI [of _ g] exI [of _ 2])
next
  case 4
  have "b64_encode [] = [] @ replicate 0 CHR ''='' \<and> set [] \<subseteq> base64_alphabet
      \<and> (0::nat) < 4 \<and> length (b64_encode []) mod 4 = 0"
    by simp
  then show ?case by (intro exI [of _ "[]"] exI [of _ 0])
qed

lemma b64_codec: "base64_codec b64_encode b64_decode"
  unfolding base64_codec_def
proof (intro conjI allI)
  show "b64_encode [] = []" by simp
  fix bs
  from b64_encode_shape [of bs] obtain body k where
    "b64_encode bs = body @ replicate k CHR ''=''" "set body \<subseteq> base64_alphabet"
    "k < 4" "length (b64_encode bs) mod 4 = 0"
    by (elim exE conjE)
  with b64_decode_encode [of bs]
  show "\<exists>body k. b64_encode bs = body @ replicate k CHR ''='' \<and> set body \<subseteq> base64_alphabet
      \<and> k < 4 \<and> length (b64_encode bs) mod 4 = 0 \<and> b64_decode (b64_encode bs) = Some bs"
    by (intro exI [of _ body] exI [of _ k]) simp
qed

lemma b64_codec_buffer: "base64_codec b64_encode (\<lambda>s. Some (ref_fromBase64 s))"
  unfolding base64_codec_def
proof (intro conjI allI)
  show "b64_encode [] = []" by simp
  fix bs
  from b64_encode_shape [of bs] obtain body k where
    "b64_encode bs = body @ replicate k CHR ''=''" "set body \<subseteq> base64_alphabet"
    "k < 4" "length (b64_encode bs) mod 4 = 0"
    by (elim exE conjE)
  moreover have "Some (ref_fromBase64 (b64_encode bs)) = Some bs"
    by (simp add: ref_fromBase64_def b64_decode_encode)
  ultimately
  show "\<exists>body k. b64_encode bs = body @ replicate k CHR ''='' \<and> set body \<subseteq> base64_alphabet
      \<and> k < 4 \<and> length (b64_encode bs) mod 4 = 0
      \<and> Some (ref_fromBase64 (b64_encode bs)) = Some bs"
    by (intro exI [of _ body] exI [of _ k]) simp
qed

lemma ref_text_roundtrip:
  "map (\<lambda>b. char_of (unat b)) (map (\<lambda>c. of_nat (of_char c) :: byte) s) = s"
  by (induction s) (simp_all add: unat_of_nat)

lemma ref_text_roundtrip_comp:
  "map ((\<lambda>b. char_of (unat b)) \<circ> (\<lambda>c. of_nat (of_char c) :: byte)) s = s"
  by (induction s) (simp_all add: unat_of_nat)

lemma ref_platform_ok: "platform_ok ref_platform"
proof -
  have "services_available ref_platform"
    by (simp add: services_available_def ref_platform_def)
  moreover have "base64_ok ref_platform"
    using b64_codec_buffer by (simp add: base64_ok_def ref_platform_def)
  moreover have "aead_ok ref_platform"
    by (simp add: aead_ok_def ref_platform_def ref_tag_def TAG_LENGTH_def comp_def min_def)
  moreover have "compression_ok ref_platform"
    using b64_codec by (simp add: compression_ok_def ref_platform_def ref_text_roundtrip ref_text_roundtrip_comp)
  moreover have "text_ok ref_platform"
    by (simp add: text_ok_def ref_platform_def ref_text_roundtrip ref_text_roundtrip_comp)
  ultimately show ?thesis by (simp add: platform_ok_def)
qed

lemma browser_platform_ok: "platform_ok browser_platform"
proof -
  have "services_available browser_platform"
    by (simp add: services_available_def ref_platform_def browser_platform_def)
  moreover have "base64_ok browser_platform"
    using b64_codec by (simp add: base64_ok_def ref_platform_def browser_platform_def)
  moreover have "aead_ok browser_platform"
    by (simp add: aead_ok_def ref_platform_def browser_platform_def ref_tag_def TAG_LENGTH_def comp_def min_def)
  moreover have "compression_ok browser_platform"
    using b64_codec
    by (simp add: compression_ok_def ref_platform_def browser_platform_def ref_text_roundtrip ref_text_roundtrip_comp)
  moreover have "text_ok browser_platform"
    by (simp add: text_ok_def ref_platform_def browser_platform_def ref_text_roundtrip ref_text_roundtrip_comp)
  ultimately show ?thesis by (simp add: platform_ok_def)
qed

section \<open>Evaluating on the reference platform\<close>

lemma b64_index_values:
    "b64_index CHR ''A'' = Some 0" "b64_index CHR ''B'' = Some 1"
    "b64_index CHR ''C'' = Some 2" "b64_index CHR ''D'' = Some 3"
    "b64_index CHR ''E'' = Some 4" "b64_index CHR ''F'' = Some 5"
    "b64_index CHR ''G'' = Some 6" "b64_index CHR ''H'' = Some 7"
    "b64_index CHR ''I'' = Some 8" "b64_index CHR ''J'' = Some 9"
    "b64_index CHR ''K'' = Some 10" "b64_index CHR ''L'' = Some 11"
    "b64_index CHR ''M'' = Some 12" "b64_index CHR ''N'' = Some 13"
    "b64_index CHR ''O'' = Some 14" "b64_index CHR ''P'' = Some 15"
    "b64_index CHR ''Q'' = Some 16" "b64_index CHR ''R'' = Some 17"
    "b64_index CHR ''S'' = Some 18" "b64_index CHR ''T'' = Some 19"
    "b64_index CHR ''U'' = Some 20" "b64_index CHR ''V'' = Some 21"
    "b64_index CHR ''W'' = Some 22" "b64_index CHR ''X'' = Some 23"
    "b64_index CHR ''Y'' = Some 24" "b64_index CHR ''Z'' = Some 25"
    "b64_index CHR ''a'' = Some 26" "b64_index CHR ''b'' = Some 27"
    "b64_index CHR ''c'' = Some 28" "b64_index CHR ''d'' = Some 29"
    "b64_index CHR ''e'' = Some 30" "b64_index CHR ''f'' = Some 31"
    "b64_index CHR ''g'' = Some 32" "b64_index CHR ''h'' = Some 33"
    "b64_index CHR ''i'' = Some 34" "b64_index CHR ''j'' = Some 35"
    "b64_index CHR ''k'' = Some 36" "b64_index CHR ''l'' = Some 37"
    "b64_index CHR ''m'' = Some 38" "b64_index CHR ''n'' = Some 39"
    "b64_index CHR ''o'' = Some 40" "b64_index CHR ''p'' = Some 41"
    "b64_index CHR ''q'' = Some 42" "b64_index CHR ''r'' = Some 43"
    "b64_index CHR ''s'' = Some 44" "b64_index CHR ''t'' = Some 45"
    "b64_index CHR ''u'' = Some 46" "b64_index CHR ''v'' = Some 47"
    "b64_index CHR ''w'' = Some 48" "b64_index CHR ''x'' = Some 49"
    "b64_index CHR ''y'' = Some 50" "b64_index CHR ''z'' = Some 51"
    "b64_index CHR ''0'' = Some 52" "b64_index CHR ''1'' = Some 53"
    "b64_index CHR ''2'' = Some 54" "b64_index CHR ''3'' = Some 55"
    "b64_index CHR ''4'' = Some 56" "b64_index CHR ''5'' = Some 57"
    "b64_index CHR ''6'' = Some 58" "b64_index CHR ''7'' = Some 59"
    "b64_index CHR ''8'' = Some 60" "b64_index CHR ''9'' = Some 61"
    "b64_index CHR ''+'' = Some 62" "b64_index CHR ''/'' = Some 63"
    "b64_index CHR ''='' = None" "b64_index CHR ''-'' = None" "b64_index CHR ''_'' = None"
  by (simp_all add: b64_index_def b64_table_def)

lemma replicate_pad:
  "replicate 1 x = [x]" "replicate 2 x = [x, x]" "replicate 3 x = [x, x, x]"
  by (simp_all add: numeral_2_eq_2 numeral_3_eq_3)

lemmas ref_eval =
  decode_def decode_split_def decode_open_def decodeBase64Url_def replaceChar_def
  ref_platform_def browser_platform_def ref_fromBase64_def b64_index_values replicate_pad
  unpackMetadata_def ALGORITHM_REVERSE_MAP_def COMPRESSION_REVERSE_MAP_def
  FLAG_HAS_TIMESTAMP_def FLAG_HAS_TTL_def sliceBytes_def getUint32_def
  validateVersion_def isSupportedVersion_def SUPPORTED_VERSIONS_def getMetadataSize_def
  decrypt_def deriveKeyFromPassword_def stringToBytes_def KEY_LENGTH_def IV_LENGTH_def
  TAG_LENGTH_def open_ciphertext_def ref_tag_def
  decompress_def Brotli_decompress_def bytesToString_def
  ref_parse_def ref_values_def chunkPayload_def ref_cid_def show_int_def quote_def
  ttl_expired_def truthy_def Let_def char_of_def bit_Suc_0_iff

lemma ref_roundtrips_msg: "json_roundtrips ref_platform (JObj [(''msg'', JStr ''hi'')])"
  by (simp add: json_roundtrips_def ref_eval)

lemma browser_roundtrips_msg: "json_roundtrips browser_platform (JObj [(''msg'', JStr ''hi'')])"
  by (simp add: json_roundtrips_def ref_eval)

section \<open>Expiry\<close>

lemma decode_split_extractMetadata:
  assumes "decode_split P tok secret = Inr (m, salt, enc)"
  shows "extractMetadata P tok = Inr m"
  using assms
  by (auto simp: decode_split_def extractMetadata_def Let_def split: sum.splits if_splits)

lemma decode_split_bytes:
  assumes "decode_split P tok secret = Inr (m, salt, enc)"
  shows "\<exists>bs. decodeBase64Url P tok = Inr bs \<and> unpackMetadata bs = Inr m"
  using assms
  by (auto simp: decode_split_def Let_def split: sum.splits if_splits)

lemma decode_split_not_expired: "decode_split P tok secret \<noteq> Inl TokenExpired"
  by (auto simp: decode_split_def Let_def split: sum.splits if_splits)

lemma decode_open_not_expired: "decode_open P m salt enc secret \<noteq> Inl TokenExpired"
  by (auto simp: decode_open_def split: sum.splits option.splits)

lemma decode_Inr:
  assumes "decode P tok secret now0 = Inr d"
  shows "\<exists>m salt enc. decode_split P tok secret = Inr (m, salt, enc)
           \<and> decode_open P m salt enc secret = Inr d"
  using assms by (auto simp: decode_def split: sum.splits if_splits)

lemma decode_at_any_time:
  assumes "decode P tok secret now0 = Inr d" and "extractMetadata P tok = Inr m"
  shows "decode P tok secret now = (if ttl_expired m now then Inl TokenExpired else Inr d)"
proof -
  from decode_Inr [OF assms(1)] obtain m' salt enc where
    s: "decode_split P tok secret = Inr (m', salt, enc)"
    and o: "decode_open P m' salt enc secret = Inr d"
    by blast
  from decode_split_extractMetadata [OF s] assms(2) have "m' = m" by simp
  with s o show ?thesis by (simp add: decode_def)
qed

text \<open>
  C2 (as amended).  For a token that decodes to \<open>d\<close> at some time, so that it is valid
  apart from expiry, and whose embedded metadata has a timestamp and a ttl that are both
  non-zero: \<open>decode\<close> fails with ``Token has expired'' whenever the clock is past
  \<open>timestamp + ttl * 1000\<close>, and returns \<open>d\<close> whenever the clock is before it.
\<close>

theorem decode_expiry:
  assumes "extractMetadata P tok = Inr m"
    and "timestamp m = Some ts" and "ttl m = Some l" and "ts \<noteq> 0" and "l \<noteq> 0"
    and "decode P tok secret now0 = Inr d"
  shows "(ts + l * 1000 < now \<longrightarrow> decode P tok secret now = Inl TokenExpired)
       \<and> (now < ts + l * 1000 \<longrightarrow> decode P tok secret now = Inr d)"
  using decode_at_any_time [OF assms(6,1), of now] assms(2-5)
  by (simp add: ttl_expired_def truthy_def)

lemmas ref_eval_meta =
  extractMetadata_def decodeBase64Url_def replaceChar_def
  ref_platform_def browser_platform_def ref_fromBase64_def b64_index_values replicate_pad
  unpackMetadata_def ALGORITHM_REVERSE_MAP_def COMPRESSION_REVERSE_MAP_def
  FLAG_HAS_TIMESTAMP_def FLAG_HAS_TTL_def sliceBytes_def getUint32_def
  validateVersion_def isSupportedVersion_def SUPPORTED_VERSIONS_def Let_def

lemma ttl1_token_metadata:
  "extractMetadata ref_platform
     ''AQEBA2VT8QAAAAABAAECAwQFBgcICQoLDA0ODxAREhMUFRYXGBkaG0N8I250aCM7I2lqI35wdwABAgMEBQYHCAkKCwwN''
   = Inr \<lparr>version = 1, algorithm = ''aes-gcm-256'', compression = ''brotli'',
          timestamp = Some 1700000000000, ttl = Some 1\<rparr>"
  by (simp add: ref_eval_meta)

lemma ttl1_token_decodes:
  "decode ref_platform
     ''AQEBA2VT8QAAAAABAAECAwQFBgcICQoLDA0ODxAREhMUFRYXGBkaG0N8I250aCM7I2lqI35wdwABAgMEBQYHCAkKCwwN''
     (Passphrase ''pw'') 1700000000000
   = Inr (JObj [(''msg'', JStr ''hi'')])"
  by (simp add: ref_eval)

theorem decode_expiry_witness:
  "extractMetadata ref_platform
     ''AQEBA2VT8QAAAAABAAECAwQFBgcICQoLDA0ODxAREhMUFRYXGBkaG0N8I250aCM7I2lqI35wdwABAgMEBQYHCAkKCwwN''
   = Inr \<lparr>version = 1, algorithm = ''aes-gcm-256'', compression = ''brotli'',
          timestamp = Some 1700000000000, ttl = Some 1\<rparr>
   \<and> decode ref_platform
     ''AQEBA2VT8QAAAAABAAECAwQFBgcICQoLDA0ODxAREhMUFRYXGBkaG0N8I250aCM7I2lqI35wdwABAgMEBQYHCAkKCwwN''
     (Passphrase ''pw'') 1700000001001 = Inl TokenExpired
   \<and> decode ref_platform
     ''AQEBA2VT8QAAAAABAAECAwQFBgcICQoLDA0ODxAREhMUFRYXGBkaG0N8I250aCM7I2lqI35wdwABAgMEBQYHCAkKCwwN''
     (Passphrase ''pw'') 1700000000999 = Inr (JObj [(''msg'', JStr ''hi'')])"
  using decode_expiry [OF ttl1_token_metadata _ _ _ _ ttl1_token_decodes,
      of 1700000000000 1 1700000001001]
    decode_expiry [OF ttl1_token_metadata _ _ _ _ ttl1_token_decodes,
      of 1700000000000 1 1700000000999]
    ttl1_token_metadata
  by simp

text \<open>
  The claim as stated fails where the stored ttl is 0: the metadata of this token holds
  the timestamp 1700000000000 and the ttl 0, the clock is five seconds past
  \<open>timestamp + ttl * 1000\<close>, and \<open>decode\<close> returns the data.
\<close>

theorem decode_expiry_counterexample:
  "extractMetadata ref_platform
     ''AQEBA2VT8QAAAAAAAAECAwQFBgcICQoLDA0ODxAREhMUFRYXGBkaG0N8I250aCM7I2lqI35wdwABAgMEBQYHCAkKCwwN''
   = Inr \<lparr>version = 1, algorithm = ''aes-gcm-256'', compression = ''brotli'',
          timestamp = Some 1700000000000, ttl = Some 0\<rparr>
   \<and> (1700000005000 :: int) \<ge> 1700000000000 + 0 * 1000
   \<and> decode ref_platform
     ''AQEBA2VT8QAAAAAAAAECAwQFBgcICQoLDA0ODxAREhMUFRYXGBkaG0N8I250aCM7I2lqI35wdwABAgMEBQYHCAkKCwwN''
     (Passphrase ''pw'') 1700000005000 = Inr (JObj [(''msg'', JStr ''hi'')])"
  by (simp add: ref_eval extractMetadata_def)

text \<open>
  At the instant \<open>timestamp + ttl * 1000\<close> itself \<open>decode\<close> still returns the data (it
  tests \<open>now > expiresAt\<close>), while \<open>isMetadataExpired\<close> of \<open>ttl.ts\<close> already answers
  that the token is expired (it tests \<open>Date.now() >= expiresAt\<close>).
\<close>

lemma decode_at_expiry_instant:
  "decode ref_platform
     ''AQEBA2VT8QAAAAABAAECAwQFBgcICQoLDA0ODxAREhMUFRYXGBkaG0N8I250aCM7I2lqI35wdwABAgMEBQYHCAkKCwwN''
     (Passphrase ''pw'') 1700000001000 = Inr (JObj [(''msg'', JStr ''hi'')])
   \<and> isMetadataExpired \<lparr>version = 1, algorithm = ''aes-gcm-256'', compression = ''brotli'',
          timestamp = Some 1700000000000, ttl = Some 1\<rparr> 1700000001000"
  by (simp add: ref_eval isMetadataExpired_def)

lemma unpackMetadata_flagged:
  assumes "unpackMetadata bs = Inr m"
    and "bs ! 3 AND FLAG_HAS_TIMESTAMP \<noteq> 0" and "bs ! 3 AND FLAG_HAS_TTL \<noteq> 0"
  shows "timestamp m = Some (getUint32 (sliceBytes bs 4 (Some 8)) * 1000)"
    and "ttl m = Some (getUint32 (sliceBytes bs 8 (Some 12)))"
  using assms
  by (auto simp: unpackMetadata_def Let_def split: if_splits option.splits)

text \<open>
  C10.  For a token whose decoded bytes have both flag bits set and whose stored ttl, or
  whose stored timestamp, is 0, \<open>decode\<close> never fails with ``Token has expired'',
  whatever the clock says.
\<close>

theorem zero_field_never_expires:
  assumes "decodeBase64Url P tok = Inr bs"
    and "bs ! 3 AND FLAG_HAS_TIMESTAMP \<noteq> 0" and "bs ! 3 AND FLAG_HAS_TTL \<noteq> 0"
    and "getUint32 (sliceBytes bs 8 (Some 12)) = 0 \<or> getUint32 (sliceBytes bs 4 (Some 8)) = 0"
  shows "decode P tok secret now \<noteq> Inl TokenExpired"
proof (cases "decode_split P tok secret")
  case (Inl e)
  with decode_split_not_expired [of P tok secret] show ?thesis
    by (simp add: decode_def)
next
  case (Inr r)
  then obtain m salt enc where s: "decode_split P tok secret = Inr (m, salt, enc)"
    by (cases r) auto
  from decode_split_bytes [OF s] assms(1) have u: "unpackMetadata bs = Inr m" by auto
  from unpackMetadata_flagged [OF u assms(2,3)] assms(4)
  have "\<not> ttl_expired m now"
    by (auto simp: ttl_expired_def truthy_def)
  with s decode_open_not_expired [of P m salt enc secret] show ?thesis
    by (auto simp: decode_def split: sum.splits)
qed

theorem zero_field_never_expires_witness:
  "decodeBase64Url ref_platform
     ''AQEBA2VT8QAAAAAAAAECAwQFBgcICQoLDA0ODxAREhMUFRYXGBkaG0N8I250aCM7I2lqI35wdwABAgMEBQYHCAkKCwwN''
   = Inr [1, 1, 1, 3, 101, 83, 241, 0, 0, 0, 0, 0, 0, 1, 2, 3, 4, 5, 6, 7, 8, 9, 10,
          11, 12, 13, 14, 15, 16, 17, 18, 19, 20, 21, 22, 23, 24, 25, 26, 27, 67,
          124, 35, 110, 116, 104, 35, 59, 35, 105, 106, 35, 126, 112, 119, 0, 1, 2,
          3, 4, 5, 6, 7, 8, 9, 10, 11, 12, 13]
   \<and> (3 :: byte) AND FLAG_HAS_TIMESTAMP \<noteq> 0 \<and> (3 :: byte) AND FLAG_HAS_TTL \<noteq> 0
   \<and> getUint32 [0, 0, 0, 0] = 0
   \<and> decode ref_platform
     ''AQEBA2VT8QAAAAAAAAECAwQFBgcICQoLDA0ODxAREhMUFRYXGBkaG0N8I250aCM7I2lqI35wdwABAgMEBQYHCAkKCwwN''
     (Passphrase ''pw'') 1800000000000 \<noteq> Inl TokenExpired"
proof -
  have b: "decodeBase64Url ref_platform
     ''AQEBA2VT8QAAAAAAAAECAwQFBgcICQoLDA0ODxAREhMUFRYXGBkaG0N8I250aCM7I2lqI35wdwABAgMEBQYHCAkKCwwN''
   = Inr [1, 1, 1, 3, 101, 83, 241, 0, 0, 0, 0, 0, 0, 1, 2, 3, 4, 5, 6, 7, 8, 9, 10,
          11, 12, 13, 14, 15, 16, 17, 18, 19, 20, 21, 22, 23, 24, 25, 26, 27, 67,
          124, 35, 110, 116, 104, 35, 59, 35, 105, 106, 35, 126, 112, 119, 0, 1, 2,
          3, 4, 5, 6, 7, 8, 9, 10, 11, 12, 13]"
    by (simp add: ref_eval_meta)
  have f: "(3 :: byte) AND FLAG_HAS_TIMESTAMP \<noteq> 0" "(3 :: byte) AND FLAG_HAS_TTL \<noteq> 0"
    "getUint32 [0, 0, 0, 0] = 0"
    by (simp_all add: FLAG_HAS_TIMESTAMP_def FLAG_HAS_TTL_def getUint32_def)
  show ?thesis
    using zero_field_never_expires [OF b, of "Passphrase ''pw''" 1800000000000] b f
    by (simp add: sliceBytes_def)
qed

section \<open>Unsupported versions\<close>

lemma unpackMetadata_version:
  "unpackMetadata bs = Inr m \<Longrightarrow> version m = unat (bs ! 0) \<and> 4 \<le> length bs"
  by (auto simp: unpackMetadata_def Let_def split: if_splits option.splits)

lemma unpackMetadata_errors:
  "unpackMetadata bs = Inl e \<Longrightarrow>
     e = MetadataTooShort \<and> length bs < 4
   \<or> 4 \<le> length bs
     \<and> e \<in> {UnknownAlgorithmId (unat (bs ! 1)), UnknownCompressionId (unat (bs ! 2)),
            MissingTimestampBytes, MissingTTLBytes}"
  by (auto simp: unpackMetadata_def Let_def split: if_splits option.splits)

text \<open>
  C9 (as amended).  For a token whose decoded first byte is not a supported version,
  \<open>validateToken\<close> returns false and \<open>extractMetadata\<close> and \<open>decode\<close> both fail, with
  exactly these errors.  Where the rest of the metadata unpacks (four header bytes, known
  algorithm and compression ids, the flagged fields present), the failure of both is the
  version error, wrapped as ``Invalid token: Unsupported token version ...''.  Where it
  does not, the failure is the error of the earlier check: \<open>extractMetadata\<close> fails with
  the error of \<open>unpackMetadata\<close>, wrapped as ``Invalid token: ...'', and \<open>decode\<close> with
  ``Invalid token: too short'' for fewer than four bytes and with the wrapped error of
  \<open>unpackMetadata\<close> otherwise; that error is ``too short'' for fewer than four bytes and
  otherwise the unknown algorithm id, the unknown compression id, or the missing
  timestamp or TTL bytes.
\<close>

theorem unsupported_version_rejected:
  assumes "decodeBase64Url P tok = Inr bs" and "bs \<noteq> []"
    and "\<not> isSupportedVersion (unat (bs ! 0))"
  shows "\<not> validateToken P tok
       \<and> extractMetadata P tok
           = Inl (InvalidToken (case unpackMetadata bs of
                                  Inl e \<Rightarrow> e
                                | Inr m \<Rightarrow> UnsupportedVersion (unat (bs ! 0))))
       \<and> decode P tok secret now
           = Inl (if length bs < 4 then TokenTooShort
                  else InvalidToken (case unpackMetadata bs of
                                       Inl e \<Rightarrow> e
                                     | Inr m \<Rightarrow> UnsupportedVersion (unat (bs ! 0))))
       \<and> (\<forall>m. unpackMetadata bs = Inr m \<longrightarrow>
             extractMetadata P tok = Inl (InvalidToken (UnsupportedVersion (unat (bs ! 0))))
           \<and> decode P tok secret now = Inl (InvalidToken (UnsupportedVersion (unat (bs ! 0)))))
       \<and> (\<forall>e. unpackMetadata bs = Inl e \<longrightarrow>
             extractMetadata P tok = Inl (InvalidToken e)
           \<and> decode P tok secret now
               = Inl (if length bs < 4 then TokenTooShort else InvalidToken e)
           \<and> (e = MetadataTooShort \<and> length bs < 4
              \<or> 4 \<le> length bs
                \<and> e \<in> {UnknownAlgorithmId (unat (bs ! 1)), UnknownCompressionId (unat (bs ! 2)),
                       MissingTimestampBytes, MissingTTLBytes}))"
proof (cases "unpackMetadata bs")
  case (Inl e)
  from unpackMetadata_errors [OF Inl]
  have "e = MetadataTooShort \<and> length bs < 4
      \<or> 4 \<le> length bs
        \<and> e \<in> {UnknownAlgorithmId (unat (bs ! 1)), UnknownCompressionId (unat (bs ! 2)),
               MissingTimestampBytes, MissingTTLBytes}" .
  then show ?thesis
    using assms(1) Inl
    by (simp add: validateToken_def extractMetadata_def decode_def decode_split_def)
next
  case (Inr m)
  from unpackMetadata_version [OF Inr] assms(3)
  have v: "validateVersion m = Inl (UnsupportedVersion (unat (bs ! 0)))" and l: "\<not> length bs < 4"
    by (simp_all add: validateVersion_def)
  show ?thesis
    using assms(1) Inr v l
    by (simp add: validateToken_def extractMetadata_def decode_def decode_split_def)
qed

theorem unsupported_version_rejected_witness:
  "decodeBase64Url ref_platform ''AgEAAAAAAAAAAAAAAAAAAAAAAAAAAAAAAAAAAAAAAAA''
     = Inr [2, 1, 0, 0, 0, 0, 0, 0, 0, 0, 0, 0, 0, 0, 0, 0, 0, 0, 0, 0, 0, 0, 0, 0, 0, 0, 0, 0, 0, 0, 0, 0]
   \<and> \<not> isSupportedVersion 2
   \<and> unpackMetadata [2, 1, 0, 0, 0, 0, 0, 0, 0, 0, 0, 0, 0, 0, 0, 0, 0, 0, 0, 0, 0, 0, 0, 0, 0, 0, 0, 0, 0, 0, 0, 0]
       = Inr \<lparr>version = 2, algorithm = ''aes-gcm-256'', compression = ''none'',
              timestamp = None, ttl = None\<rparr>
   \<and> \<not> validateToken ref_platform ''AgEAAAAAAAAAAAAAAAAAAAAAAAAAAAAAAAAAAAAAAAA''
   \<and> extractMetadata ref_platform ''AgEAAAAAAAAAAAAAAAAAAAAAAAAAAAAAAAAAAAAAAAA''
       = Inl (InvalidToken (UnsupportedVersion 2))
   \<and> decode ref_platform ''AgEAAAAAAAAAAAAAAAAAAAAAAAAAAAAAAAAAAAAAAAA'' (Passphrase ''pw'') 0
       = Inl (InvalidToken (UnsupportedVersion 2))
   \<and> decodeBase64Url ref_platform ''AgkAAA'' = Inr [2, 9, 0, 0]
   \<and> unpackMetadata [2, 9, 0, 0] = Inl (UnknownAlgorithmId 9)
   \<and> \<not> validateToken ref_platform ''AgkAAA''
   \<and> extractMetadata ref_platform ''AgkAAA'' = Inl (InvalidToken (UnknownAlgorithmId 9))
   \<and> decode ref_platform ''AgkAAA'' (Passphrase ''pw'') 0
       = Inl (InvalidToken (UnknownAlgorithmId 9))"
proof -
  have b: "decodeBase64Url ref_platform ''AgEAAAAAAAAAAAAAAAAAAAAAAAAAAAAAAAAAAAAAAAA''
     = Inr [2, 1, 0, 0, 0, 0, 0, 0, 0, 0, 0, 0, 0, 0, 0, 0, 0, 0, 0, 0, 0, 0, 0, 0, 0, 0, 0, 0, 0, 0, 0, 0]"
    by (simp add: ref_eval_meta)
  have n: "([2, 1, 0, 0, 0, 0, 0, 0, 0, 0, 0, 0, 0, 0, 0, 0, 0, 0, 0, 0, 0, 0, 0, 0, 0, 0, 0, 0, 0, 0, 0, 0] :: bytes) \<noteq> []" by simp
  have s: "\<not> isSupportedVersion (unat (([2, 1, 0, 0, 0, 0, 0, 0, 0, 0, 0, 0, 0, 0, 0, 0, 0, 0, 0, 0, 0, 0, 0, 0, 0, 0, 0, 0, 0, 0, 0, 0] :: bytes) ! 0))"
    by (simp add: isSupportedVersion_def SUPPORTED_VERSIONS_def)
  have u: "unpackMetadata [2, 1, 0, 0, 0, 0, 0, 0, 0, 0, 0, 0, 0, 0, 0, 0, 0, 0, 0, 0, 0, 0, 0, 0, 0, 0, 0, 0, 0, 0, 0, 0]
       = Inr \<lparr>version = 2, algorithm = ''aes-gcm-256'', compression = ''none'',
              timestamp = None, ttl = None\<rparr>"
    by (simp add: ref_eval_meta)
  have b': "decodeBase64Url ref_platform ''AgkAAA'' = Inr [2, 9, 0, 0]"
    by (simp add: ref_eval_meta)
  have n': "([2, 9, 0, 0] :: bytes) \<noteq> []" by simp
  have s': "\<not> isSupportedVersion (unat (([2, 9, 0, 0] :: bytes) ! 0))"
    by (simp add: isSupportedVersion_def SUPPORTED_VERSIONS_def)
  have u': "unpackMetadata [2, 9, 0, 0] = Inl (UnknownAlgorithmId 9)"
    by (simp add: ref_eval_meta)
  show ?thesis
    using unsupported_version_rejected [OF b n s, of "Passphrase ''pw''" 0]
      unsupported_version_rejected [OF b' n' s', of "Passphrase ''pw''" 0] b u s b' u'
    by simp
qed

text \<open>
  The claim as stated fails where the rest of the header does not unpack: the version
  byte of these two tokens is 2, and \<open>extractMetadata\<close> and \<open>decode\<close> fail with the
  error for the unknown algorithm id 9, or for a token of one byte, not with a version
  error, because \<open>unpackMetadata\<close> runs before \<open>validateVersion\<close>.
\<close>

theorem unsupported_version_counterexample:
  "decodeBase64Url ref_platform ''AgkAAA'' = Inr [2, 9, 0, 0]
   \<and> \<not> isSupportedVersion 2
   \<and> extractMetadata ref_platform ''AgkAAA'' = Inl (InvalidToken (UnknownAlgorithmId 9))
   \<and> decode ref_platform ''AgkAAA'' (Passphrase ''pw'') 0
       = Inl (InvalidToken (UnknownAlgorithmId 9))
   \<and> decodeBase64Url ref_platform ''Ag'' = Inr [2]
   \<and> extractMetadata ref_platform ''Ag'' = Inl (InvalidToken MetadataTooShort)
   \<and> decode ref_platform ''Ag'' (Passphrase ''pw'') 0 = Inl TokenTooShort"
  by (simp add: ref_eval extractMetadata_def)

section \<open>Key preconditions of the crypto engine\<close>

text \<open>
  The checks of the key that \<open>encrypt\<close> and \<open>decrypt\<close> make.  A raw key whose length is
  not 32 makes both fail with the key-length error; the empty passphrase makes \<open>encrypt\<close>
  fail with ``Password cannot be empty''; \<open>decrypt\<close> with a passphrase and no salt fails
  with the salt-required error; and \<open>decrypt\<close> of a payload whose IV is not 12 bytes long
  fails without reaching the cipher: its result is one of the errors of the checks before
  the cipher, the same whatever the cipher is, and it is the IV-length error once the key
  can be had.  \<open>decrypt\<close> has no check of the passphrase: with a salt it derives the key
  from whatever passphrase it is given, the empty one included, checks the IV and opens
  the payload with that key.
\<close>

lemma key_checks:
  "(length k \<noteq> 32 \<longrightarrow>
      encrypt P pt (RawKey k) w = Inl KeyLengthError
    \<and> decrypt P enc (RawKey k) salt = Inl KeyLengthError)
   \<and> encrypt P pt (Passphrase []) w = Inl EmptyPassword
   \<and> decrypt P enc (Passphrase p) None = Inl SaltRequired
   \<and> (length (iv enc) \<noteq> 12 \<longrightarrow>
        decrypt P enc secret salt
          \<in> {Inl KeyLengthError, Inl SaltRequired, Inl NoCryptoAvailable,
             Inl (InvalidIVLength (length (iv enc)))}
      \<and> decrypt (P\<lparr>aes_gcm_decrypt := cipher\<rparr>) enc secret salt = decrypt P enc secret salt
      \<and> (keyAvailable P secret salt \<longrightarrow>
            decrypt P enc secret salt = Inl (InvalidIVLength (length (iv enc)))))
   \<and> decrypt P enc (Passphrase p) (Some s)
       = (if \<not> has_subtle P \<and> \<not> is_node P then Inl NoCryptoAvailable
          else if length (iv enc) \<noteq> 12 then Inl (InvalidIVLength (length (iv enc)))
          else open_ciphertext P (pbkdf2 P (TextEncoder_encode P p) s) (iv enc) (ciphertext enc))"
proof (intro conjI impI)
  assume "length k \<noteq> 32"
  then show "encrypt P pt (RawKey k) w = Inl KeyLengthError"
    by (simp add: encrypt_def processKeyMaterial_def KEY_LENGTH_def)
next
  assume "length k \<noteq> 32"
  then show "decrypt P enc (RawKey k) salt = Inl KeyLengthError"
    by (simp add: decrypt_def KEY_LENGTH_def)
next
  show "encrypt P pt (Passphrase []) w = Inl EmptyPassword"
    by (simp add: encrypt_def processKeyMaterial_def)
next
  show "decrypt P enc (Passphrase p) None = Inl SaltRequired"
    by (simp add: decrypt_def)
next
  assume "length (iv enc) \<noteq> 12"
  then show "decrypt P enc secret salt
          \<in> {Inl KeyLengthError, Inl SaltRequired, Inl NoCryptoAvailable,
             Inl (InvalidIVLength (length (iv enc)))}"
    by (cases secret; cases salt)
      (simp_all add: decrypt_def deriveKeyFromPassword_def KEY_LENGTH_def IV_LENGTH_def Let_def)
next
  assume "length (iv enc) \<noteq> 12"
  then show "decrypt (P\<lparr>aes_gcm_decrypt := cipher\<rparr>) enc secret salt = decrypt P enc secret salt"
    by (cases secret; cases salt)
      (simp_all add: decrypt_def deriveKeyFromPassword_def KEY_LENGTH_def IV_LENGTH_def Let_def
         stringToBytes_def)
next
  assume "length (iv enc) \<noteq> 12" and "keyAvailable P secret salt"
  then show "decrypt P enc secret salt = Inl (InvalidIVLength (length (iv enc)))"
    by (cases secret; cases salt)
      (auto simp: decrypt_def deriveKeyFromPassword_def KEY_LENGTH_def IV_LENGTH_def Let_def
         keyAvailable_def)
next
  show "decrypt P enc (Passphrase p) (Some s)
       = (if \<not> has_subtle P \<and> \<not> is_node P then Inl NoCryptoAvailable
          else if length (iv enc) \<noteq> 12 then Inl (InvalidIVLength (length (iv enc)))
          else open_ciphertext P (pbkdf2 P (TextEncoder_encode P p) s) (iv enc) (ciphertext enc))"
    by (simp add: decrypt_def deriveKeyFromPassword_def IV_LENGTH_def Let_def stringToBytes_def)
qed

lemma key_checks_example:
  "length [1, 2, 3 :: byte] \<noteq> 32
   \<and> encrypt ref_platform [] (RawKey [1, 2, 3]) ref_world = Inl KeyLengthError
   \<and> decrypt ref_platform \<lparr>iv = [0, 0, 0, 0, 0], ciphertext = []\<rparr> (RawKey [1, 2, 3]) None
       = Inl KeyLengthError
   \<and> encrypt ref_platform [] (Passphrase []) ref_world = Inl EmptyPassword
   \<and> decrypt ref_platform \<lparr>iv = [0, 0, 0, 0, 0], ciphertext = []\<rparr> (Passphrase ''pw'') None
       = Inl SaltRequired
   \<and> length (iv \<lparr>iv = [0, 0, 0, 0, 0 :: byte], ciphertext = []\<rparr>) \<noteq> 12
   \<and> keyAvailable ref_platform (Passphrase ''pw'') (Some [])
   \<and> decrypt ref_platform \<lparr>iv = [0, 0, 0, 0, 0], ciphertext = []\<rparr> (Passphrase ''pw'') (Some [])
       = Inl (InvalidIVLength 5)"
proof -
  have h: "length [1, 2, 3 :: byte] \<noteq> 32"
    "length (iv \<lparr>iv = [0, 0, 0, 0, 0 :: byte], ciphertext = []\<rparr>) \<noteq> 12"
    "keyAvailable ref_platform (Passphrase ''pw'') (Some [])"
    by (simp_all add: keyAvailable_def ref_platform_def)
  show ?thesis
    using h
      key_checks [where k = "[1, 2, 3]" and P = ref_platform and pt = "[]"
        and w = ref_world and enc = "\<lparr>iv = [0, 0, 0, 0, 0], ciphertext = []\<rparr>"
        and salt = "Some []" and p = "''pw''" and secret = "Passphrase ''pw''" and s = "[]"]
      key_checks [where k = "[1, 2, 3]" and P = ref_platform and pt = "[]"
        and w = ref_world and enc = "\<lparr>iv = [0, 0, 0, 0, 0], ciphertext = []\<rparr>"
        and salt = None and p = "''pw''" and secret = "RawKey [1, 2, 3]" and s = "[]"]
    by simp
qed

text \<open>
  C8.  The claim says that \<open>encrypt\<close> and \<open>decrypt\<close> both fail for a passphrase that is
  the empty string.  \<open>encrypt\<close> does, through \<open>processKeyMaterial\<close>; \<open>decrypt\<close>, which
  handles the key itself, repeats the length check of a raw key and leaves the check of
  the passphrase out.  Here \<open>encrypt\<close> rejects the empty passphrase, and \<open>decrypt\<close> with
  the empty passphrase and a salt derives a key and returns the plaintext of a payload
  sealed under that key.
\<close>

theorem decrypt_empty_passphrase:
  "encrypt ref_platform [66, 123, 34, 109, 115, 103, 34, 58, 34, 104, 105, 34, 125]
     (Passphrase []) ref_world = Inl EmptyPassword
   \<and> decrypt ref_platform
       \<lparr>iv = [16, 17, 18, 19, 20, 21, 22, 23, 24, 25, 26, 27],
        ciphertext = [67, 124, 35, 110, 116, 104, 35, 59, 35, 105, 106, 35, 126,
                      0, 1, 2, 3, 4, 5, 6, 7, 8, 9, 10, 11, 12, 13, 14, 15]\<rparr>
       (Passphrase []) (Some [0, 1, 2, 3, 4, 5, 6, 7, 8, 9, 10, 11, 12, 13, 14, 15])
     = Inr [66, 123, 34, 109, 115, 103, 34, 58, 34, 104, 105, 34, 125]"
  by (simp add: ref_eval encrypt_def processKeyMaterial_def)

section \<open>Decoding with several keys\<close>

lemma fallback_loop_find:
  "fallback_loop P tok now i errors ss =
     (let tried = filter (\<lambda>(j, s). s \<noteq> Passphrase []) (zip [i ..< i + length ss] ss)
      in case find (\<lambda>(j, s). \<not> isl (decode P tok s (now j))) tried of
           Some (j, s) \<Rightarrow> Inr (projr (decode P tok s (now j)), j)
         | None \<Rightarrow> Inl (errors @ map (\<lambda>(j, s). projl (decode P tok s (now j))) tried))"
proof (induction ss arbitrary: i errors)
  case Nil
  show ?case by simp
next
  case (Cons s ss)
  have z: "zip [i ..< i + length (s # ss)] (s # ss) = (i, s) # zip [Suc i ..< Suc i + length ss] ss"
    by (subst upt_rec) simp
  show ?case
  proof (cases "s = Passphrase []")
    case True
    then show ?thesis
      unfolding z using Cons.IH [of "Suc i" errors] by simp
  next
    case False
    show ?thesis
    proof (cases "decode P tok s (now i)")
      case (Inl e)
      with False show ?thesis
        unfolding z using Cons.IH [of "Suc i" "errors @ [e]"]
        by (simp add: Let_def split: option.splits)
    next
      case (Inr d)
      with False show ?thesis
        unfolding z by simp
    qed
  qed
qed

text \<open>
  C6 (as amended).  \<open>decodeWithKeyFallback\<close> tries, in the order of the list, every
  secret that is not the empty passphrase.  It returns the data of the first of them
  with which \<open>decode\<close> succeeds, together with the index that secret has in the list; when
  none succeeds it fails with one aggregate error that carries the length of the whole
  list and, in order, the error of each secret tried.
\<close>

theorem decodeWithKeyFallback_tries_in_order:
  "decodeWithKeyFallback P tok secrets now =
     (case find (\<lambda>(i, s). \<not> isl (decode P tok s (now i))) (tried_keys secrets) of
        Some (i, s) \<Rightarrow> Inr (projr (decode P tok s (now i)), i)
      | None \<Rightarrow>
          Inl (AllKeysFailed (length secrets)
                 (map (\<lambda>(i, s). projl (decode P tok s (now i))) (tried_keys secrets))))"
  by (simp add: decodeWithKeyFallback_def fallback_loop_find tried_keys_def Let_def
        split: option.splits)

lemma plain_token_wrong_key:
  "decode ref_platform
     ''AQEBAAABAgMEBQYHCAkKCwwNDg8QERITFBUWFxgZGhtDfCNudGgjOyNpaiN-cHcAAQIDBAUGBwgJCgsMDQ''
     (Passphrase ''key1'') 0 = Inl (DecryptionFailed AuthenticationFailed)"
  by (simp add: ref_eval)

lemma plain_token_right_key:
  "decode ref_platform
     ''AQEBAAABAgMEBQYHCAkKCwwNDg8QERITFBUWFxgZGhtDfCNudGgjOyNpaiN-cHcAAQIDBAUGBwgJCgsMDQ''
     (Passphrase ''pw'') 0 = Inr (JObj [(''msg'', JStr ''hi'')])"
  by (simp add: ref_eval)

lemma tried_keys_example:
  "tried_keys [Passphrase ''key1'', Passphrase [], Passphrase ''pw'']
   = [(0, Passphrase ''key1''), (2, Passphrase ''pw'')]"
  by (simp add: tried_keys_def upt_conv_Cons)

theorem decodeWithKeyFallback_witness:
  "decodeWithKeyFallback ref_platform
     ''AQEBAAABAgMEBQYHCAkKCwwNDg8QERITFBUWFxgZGhtDfCNudGgjOyNpaiN-cHcAAQIDBAUGBwgJCgsMDQ''
     [Passphrase ''key1'', Passphrase [], Passphrase ''pw''] (\<lambda>i. 0)
   = Inr (JObj [(''msg'', JStr ''hi'')], 2)
   \<and> decodeWithKeyFallback ref_platform
     ''AQEBAAABAgMEBQYHCAkKCwwNDg8QERITFBUWFxgZGhtDfCNudGgjOyNpaiN-cHcAAQIDBAUGBwgJCgsMDQ''
     [Passphrase ''key1'', Passphrase []] (\<lambda>i. 0)
   = Inl (AllKeysFailed 2 [DecryptionFailed AuthenticationFailed])"
proof -
  have t: "tried_keys [Passphrase ''key1'', Passphrase []] = [(0, Passphrase ''key1'')]"
    by (simp add: tried_keys_def upt_conv_Cons)
  show ?thesis
    using decodeWithKeyFallback_tries_in_order [of ref_platform
        "''AQEBAAABAgMEBQYHCAkKCwwNDg8QERITFBUWFxgZGhtDfCNudGgjOyNpaiN-cHcAAQIDBAUGBwgJCgsMDQ''"
        "[Passphrase ''key1'', Passphrase [], Passphrase ''pw'']" "\<lambda>i. 0"]
      decodeWithKeyFallback_tries_in_order [of ref_platform
        "''AQEBAAABAgMEBQYHCAkKCwwNDg8QERITFBUWFxgZGhtDfCNudGgjOyNpaiN-cHcAAQIDBAUGBwgJCgsMDQ''"
        "[Passphrase ''key1'', Passphrase []]" "\<lambda>i. 0"]
    by (simp add: tried_keys_example t plain_token_wrong_key plain_token_right_key)
qed

text \<open>
  The claim as stated fails for the empty passphrase, which the loop passes over without
  an attempt: \<open>decode\<close> with the empty passphrase returns the data of this tok, and
  \<open>decodeWithKeyFallback\<close> with the list of that one secret fails, reporting one key and
  no error.
\<close>

theorem decodeWithKeyFallback_counterexample:
  "decode ref_platform
     ''AQEBAAABAgMEBQYHCAkKCwwNDg8QERITFBUWFxgZGhtDfCNudGgjOyNpaiN-AAECAwQFBgcICQoLDA0ODw''
     (Passphrase []) 0 = Inr (JObj [(''msg'', JStr ''hi'')])
   \<and> decodeWithKeyFallback ref_platform
     ''AQEBAAABAgMEBQYHCAkKCwwNDg8QERITFBUWFxgZGhtDfCNudGgjOyNpaiN-AAECAwQFBgcICQoLDA0ODw''
     [Passphrase []] (\<lambda>i. 0) = Inl (AllKeysFailed 1 [])"
proof -
  have "decode ref_platform
     ''AQEBAAABAgMEBQYHCAkKCwwNDg8QERITFBUWFxgZGhtDfCNudGgjOyNpaiN-AAECAwQFBgcICQoLDA0ODw''
     (Passphrase []) 0 = Inr (JObj [(''msg'', JStr ''hi'')])"
    by (simp add: ref_eval)
  then show ?thesis
    by (simp add: decodeWithKeyFallback_def)
qed

section \<open>The layout of a token\<close>

lemma randomBytes_Inr:
  assumes "randomBytes P n w = Inr (bs, w')"
  shows "bs = drawn w 0 n" "entropy w' = entropy w" "entropy_used w' = entropy_used w + n"
    "clock w' = clock w" "clock_reads w' = clock_reads w"
  using assms by (auto simp: randomBytes_def drawn_def split: if_splits)

lemma encrypt_exact:
  assumes "encrypt P pt secret w = Inr (enc, salt, w')"
  shows "salt = (case secret of Passphrase _ \<Rightarrow> Some (drawn w 0 16) | RawKey _ \<Rightarrow> None)"
    and "iv enc = (case secret of Passphrase _ \<Rightarrow> drawn w 16 12 | RawKey _ \<Rightarrow> drawn w 0 12)"
    and "ciphertext enc
         = fst (aes_gcm_encrypt P (sealKey P secret (case salt of None \<Rightarrow> [] | Some s \<Rightarrow> s))
                  (iv enc) pt)
           @ snd (aes_gcm_encrypt P (sealKey P secret (case salt of None \<Rightarrow> [] | Some s \<Rightarrow> s))
                  (iv enc) pt)"
    and "clock w' = clock w" and "clock_reads w' = clock_reads w"
proof -
  from assms obtain key w1 iv0 where
    k: "processKeyMaterial P secret w = Inr (key, salt, w1)"
    and r: "randomBytes P IV_LENGTH w1 = Inr (iv0, w')"
    and e: "enc = \<lparr>iv = iv0, ciphertext = fst (aes_gcm_encrypt P key iv0 pt)
                                         @ snd (aes_gcm_encrypt P key iv0 pt)\<rparr>"
    by (auto simp: encrypt_def split: sum.splits prod.splits if_splits)
  note R = randomBytes_Inr [OF r]
  have K: "salt = (case secret of Passphrase _ \<Rightarrow> Some (drawn w 0 16) | RawKey _ \<Rightarrow> None)
      \<and> key = sealKey P secret (case salt of None \<Rightarrow> [] | Some s \<Rightarrow> s)
      \<and> entropy w1 = entropy w
      \<and> entropy_used w1 = entropy_used w + (case secret of Passphrase _ \<Rightarrow> 16 | RawKey _ \<Rightarrow> 0)
      \<and> clock w1 = clock w \<and> clock_reads w1 = clock_reads w"
  proof (cases secret)
    case (RawKey k0)
    with k show ?thesis
      by (auto simp: processKeyMaterial_def sealKey_def split: if_splits)
  next
    case (Passphrase p)
    with k obtain sb where rs: "randomBytes P SALT_LENGTH w = Inr (sb, w1)"
      and "salt = Some sb" and "key = pbkdf2 P (TextEncoder_encode P p) sb"
      by (auto simp: processKeyMaterial_def deriveKeyFromPassword_def stringToBytes_def Let_def
            split: if_splits sum.splits prod.splits)
    with randomBytes_Inr [OF rs] Passphrase show ?thesis
      by (simp add: sealKey_def SALT_LENGTH_def)
  qed
  from K show "salt = (case secret of Passphrase _ \<Rightarrow> Some (drawn w 0 16) | RawKey _ \<Rightarrow> None)"
    by simp
  from K R(1) show "iv enc = (case secret of Passphrase _ \<Rightarrow> drawn w 16 12 | RawKey _ \<Rightarrow> drawn w 0 12)"
    by (cases secret) (simp_all add: e drawn_def IV_LENGTH_def)
  from K show "ciphertext enc
         = fst (aes_gcm_encrypt P (sealKey P secret (case salt of None \<Rightarrow> [] | Some s \<Rightarrow> s))
                  (iv enc) pt)
           @ snd (aes_gcm_encrypt P (sealKey P secret (case salt of None \<Rightarrow> [] | Some s \<Rightarrow> s))
                  (iv enc) pt)"
    by (simp add: e)
  from K R show "clock w' = clock w" "clock_reads w' = clock_reads w"
    by simp_all
qed

lemma createDefaultMetadata_eq:
  assumes "createDefaultMetadata compr alg includeTs ttl0 w = (m, w')"
  shows "m = \<lparr>version = 1, algorithm = alg, compression = compr,
              timestamp = (if includeTs then Some (clock w (clock_reads w)) else None),
              ttl = ttl0\<rparr>"
  using createDefaultMetadata_fields [OF assms] by (simp add: TokenMetadata.equality)

text \<open>
  C3.  For every \<open>encode\<close> call that returns a token, the bytes the token decodes to from
  URL-safe base64 are the packed metadata, then the salt, then the IV, then the encrypted
  data with its tag.  The metadata is the record of this call (version 1, the ids chosen
  by the options, the clock if a timestamp is asked for, the ttl); the salt is the 16
  bytes drawn first from the random source for a passphrase and is absent for a raw key;
  the IV is the 12 bytes drawn next; the encrypted data and the tag of 16 bytes are what
  AES-GCM returns for the compressed serialisation under the key of the secret; and
  \<open>decode\<close>, with the same secret, splits the bytes into exactly these parts.
\<close>

theorem token_layout:
  assumes "base64_ok P" and "aead_ok P"
    and "encode P d secret options w = Inr (tok, w')"
  shows "\<exists>m mb compressed salt iv0 ct tag.
           m = \<lparr>version = 1, algorithm = chosenAlgorithm options,
                compression = chosenCompression options,
                timestamp = (if includeTimestamp options then Some (clock w (clock_reads w))
                             else None),
                ttl = opt_ttl options\<rparr>
         \<and> packMetadata m = Inr mb
         \<and> compress P (TextEncoder_encode P (JSON_stringify P d)) (chosenCompression options)
             = Inr compressed
         \<and> salt = (case secret of Passphrase _ \<Rightarrow> drawn w 0 16 | RawKey _ \<Rightarrow> [])
         \<and> iv0 = (case secret of Passphrase _ \<Rightarrow> drawn w 16 12 | RawKey _ \<Rightarrow> drawn w 0 12)
         \<and> (ct, tag) = aes_gcm_encrypt P (sealKey P secret salt) iv0 compressed
         \<and> decodeBase64Url P tok = Inr (mb @ salt @ iv0 @ ct @ tag)
         \<and> (case secret of Passphrase _ \<Rightarrow> length salt = 16 | RawKey _ \<Rightarrow> salt = [])
         \<and> length iv0 = 12 \<and> length tag = 16
         \<and> decode_split P tok secret
             = Inr (stored m,
                    (case secret of Passphrase _ \<Rightarrow> Some salt | RawKey _ \<Rightarrow> None),
                    \<lparr>iv = iv0, ciphertext = ct @ tag\<rparr>)"
proof -
  from encode_parts [OF assms(3)] obtain compressed enc salt w1 m mb where
    c: "compress P (TextEncoder_encode P (JSON_stringify P d)) (chosenCompression options)
          = Inr compressed"
    and e: "encrypt P compressed secret w = Inr (enc, salt, w1)"
    and m: "createDefaultMetadata (chosenCompression options) (chosenAlgorithm options)
              (includeTimestamp options) (opt_ttl options) w1 = (m, w')"
    and p: "packMetadata m = Inr mb"
    and t: "encodeBase64Url P
              (mb @ (case salt of None \<Rightarrow> [] | Some s \<Rightarrow> s) @ iv enc @ ciphertext enc)
            = Inr tok"
    by blast
  note X = encrypt_exact [OF e]
  define sb where "sb = (case salt of None \<Rightarrow> [] | Some s \<Rightarrow> s)"
  define ct where "ct = fst (aes_gcm_encrypt P (sealKey P secret sb) (iv enc) compressed)"
  define tag where "tag = snd (aes_gcm_encrypt P (sealKey P secret sb) (iv enc) compressed)"
  have me: "m = \<lparr>version = 1, algorithm = chosenAlgorithm options,
                compression = chosenCompression options,
                timestamp = (if includeTimestamp options then Some (clock w (clock_reads w))
                             else None),
                ttl = opt_ttl options\<rparr>"
    using createDefaultMetadata_eq [OF m] X(4,5) by simp
  have sv: "sb = (case secret of Passphrase _ \<Rightarrow> drawn w 0 16 | RawKey _ \<Rightarrow> [])"
    and so: "salt = (case secret of Passphrase _ \<Rightarrow> Some sb | RawKey _ \<Rightarrow> None)"
    and sl: "case secret of Passphrase _ \<Rightarrow> length sb = 16 | RawKey _ \<Rightarrow> sb = []"
    using X(1) by (cases secret; simp add: sb_def drawn_def)+
  have i: "length (iv enc) = 12"
    using X(2) by (cases secret) (simp_all add: drawn_def)
  have tg: "length tag = 16"
    using assms(2) by (simp add: tag_def aead_ok_def TAG_LENGTH_def)
  have ce: "ciphertext enc = ct @ tag"
    using X(3) by (simp add: ct_def tag_def sb_def)
  have pr: "(ct, tag) = aes_gcm_encrypt P (sealKey P secret sb) (iv enc) compressed"
    by (simp add: ct_def tag_def)
  have b: "decodeBase64Url P tok = Inr (mb @ sb @ iv enc @ ct @ tag)"
    using decodeBase64Url_encodeBase64Url [OF assms(1) t] by (simp add: sb_def ce)
  have s: "case secret of RawKey k \<Rightarrow> salt = None
            | Passphrase p \<Rightarrow> (\<exists>s. salt = Some s \<and> length s = 16)"
    using so sl by (cases secret) simp_all
  have "decode_split P tok secret = Inr (stored m, salt, \<lparr>iv = iv enc, ciphertext = ciphertext enc\<rparr>)"
    by (rule decode_split_parts [OF assms(1) p createDefaultMetadata_fields(1) [OF m] i s t])
  then have ds: "decode_split P tok secret
      = Inr (stored m, (case secret of Passphrase _ \<Rightarrow> Some sb | RawKey _ \<Rightarrow> None),
             \<lparr>iv = iv enc, ciphertext = ct @ tag\<rparr>)"
    using so by (simp add: ce)
  from me p c sv X(2) pr b sl i tg ds show ?thesis by blast
qed

theorem token_layout_witness:
  "base64_ok ref_platform \<and> aead_ok ref_platform
   \<and> (\<exists>tok w'. encode ref_platform (JObj [(''msg'', JStr ''hi'')]) (Passphrase ''pw'')
                   noOptions ref_world = Inr (tok, w')
        \<and> (\<exists>mb compressed ct tag.
              packMetadata \<lparr>version = 1, algorithm = ''aes-gcm-256'', compression = ''brotli'',
                            timestamp = None, ttl = None\<rparr> = Inr mb
            \<and> compress ref_platform
                (TextEncoder_encode ref_platform
                   (JSON_stringify ref_platform (JObj [(''msg'', JStr ''hi'')]))) ''brotli''
                = Inr compressed
            \<and> (ct, tag) = aes_gcm_encrypt ref_platform
                            (sealKey ref_platform (Passphrase ''pw'') (drawn ref_world 0 16))
                            (drawn ref_world 16 12) compressed
            \<and> decodeBase64Url ref_platform tok
                = Inr (mb @ drawn ref_world 0 16 @ drawn ref_world 16 12 @ ct @ tag)
            \<and> length (drawn ref_world 0 16) = 16 \<and> length (drawn ref_world 16 12) = 12
            \<and> length tag = 16
            \<and> decode_split ref_platform tok (Passphrase ''pw'')
                = Inr (stored \<lparr>version = 1, algorithm = ''aes-gcm-256'',
                               compression = ''brotli'', timestamp = None, ttl = None\<rparr>,
                       Some (drawn ref_world 0 16),
                       \<lparr>iv = drawn ref_world 16 12, ciphertext = ct @ tag\<rparr>)))"
proof -
  from ref_platform_ok have b: "base64_ok ref_platform" and a: "aead_ok ref_platform"
    and s: "services_available ref_platform"
    by (simp_all add: platform_ok_def)
  have "\<exists>tok w'. encode ref_platform (JObj [(''msg'', JStr ''hi'')]) (Passphrase ''pw'')
                   noOptions ref_world = Inr (tok, w')"
    by (rule encode_succeeds [OF s])
      (simp_all add: validSecret_def chosenCompression_def chosenAlgorithm_def noOptions_def
         lzPath_def ref_platform_def)
  then obtain tok w' where e: "encode ref_platform (JObj [(''msg'', JStr ''hi'')])
      (Passphrase ''pw'') noOptions ref_world = Inr (tok, w')"
    by blast
  have o: "chosenAlgorithm noOptions = ''aes-gcm-256''" "chosenCompression noOptions = ''brotli''"
    "includeTimestamp noOptions = False" "opt_ttl noOptions = None"
    by (simp_all add: chosenCompression_def chosenAlgorithm_def noOptions_def)
  from token_layout [OF b a e] b a e show ?thesis
    unfolding o by (simp del: ex_simps)
qed

section \<open>Encoding within the argument limit\<close>

lemma length_packMetadata:
  assumes "packMetadata m = Inr mb"
  shows "length mb = 4 + (if timestamp m \<noteq> None then 4 else 0) + (if ttl m \<noteq> None then 4 else 0)"
  using assms
  by (auto simp: packMetadata_def concatBytes_def setUint32_def Let_def split: option.splits)

lemma sealedSize_encrypt:
  assumes "encrypt P compressed secret w = Inr (enc, salt, w1)"
  shows "length (case salt of None \<Rightarrow> [] | Some s \<Rightarrow> s) + length (iv enc) + length (ciphertext enc)
         = sealedSize P secret w compressed"
proof -
  note X = encrypt_exact [OF assms]
  show ?thesis
    unfolding sealedSize_def Let_def
    by (cases secret) (simp_all add: X(1) X(2) X(3) split: prod.splits)
qed

lemma encode_fits:
  assumes "services_available P" "validSecret secret"
    and "chosenCompression options \<in> {''none'', ''lz-string'', ''brotli''}
         \<or> chosenCompression options = ''zlib'' \<and> is_node P"
    and "chosenAlgorithm options = ''aes-gcm-256''"
    and "spreadsFit P d secret options w"
  shows "\<exists>tok w'. encode P d secret options w = Inr (tok, w')"
proof -
  let ?jb = "TextEncoder_encode P (JSON_stringify P d)"
  from compress_outcome [OF assms(3), of ?jb] assms(5)
  obtain compressed where c: "compress P ?jb (chosenCompression options) = Inr compressed"
    by (auto simp: spreadsFit_def)
  from encrypt_succeeds [OF assms(1,2)] obtain enc salt w1 where
    e: "encrypt P compressed secret w = Inr (enc, salt, w1)"
    by blast
  obtain m w2 where m: "createDefaultMetadata (chosenCompression options)
            (chosenAlgorithm options) (includeTimestamp options) (opt_ttl options) w1 = (m, w2)"
    by (cases "createDefaultMetadata (chosenCompression options) (chosenAlgorithm options)
            (includeTimestamp options) (opt_ttl options) w1")
  note F = createDefaultMetadata_fields [OF m]
  have "ALGORITHM_MAP (algorithm m) \<noteq> None" "COMPRESSION_MAP (compression m) \<noteq> None"
    using F(2,3) assms(3,4)
    by (auto simp: ALGORITHM_MAP_def COMPRESSION_MAP_def)
  from pack_succeeds [OF this] obtain mb where p: "packMetadata m = Inr mb"
    by blast
  let ?bs = "mb @ (case salt of None \<Rightarrow> [] | Some s \<Rightarrow> s) @ iv enc @ ciphertext enc"
  have lm: "length mb = 4 + (if includeTimestamp options then 4 else 0)
                + (if opt_ttl options \<noteq> None then 4 else 0)"
    using length_packMetadata [OF p] F(4,5) by (auto split: if_splits)
  have "length ?bs = length mb + sealedSize P secret w compressed"
    using sealedSize_encrypt [OF e] by simp
  with assms(5) c lm have "has_buffer P \<or> length ?bs \<le> spread_limit P"
    by (simp add: spreadsFit_def)
  with encodeBase64Url_outcome [of P ?bs] obtain tok where
    t: "encodeBase64Url P ?bs = Inr tok"
    by auto
  show ?thesis
    using c e m p t
    by (auto simp: encode_def Let_def stringToBytes_def chosenCompression_def
          chosenAlgorithm_def concatBytes_def split: option.splits)
qed

section \<open>The token round trip\<close>

text \<open>
  C1 (as amended).  For every JSON-representable value, every valid secret and each of
  the compression ids none, brotli and lz-string, and for zlib where the platform is
  Node.js, provided that no byte array spread into the arguments of one call is longer
  than the engine accepts (the serialised value on the LZ-String path, and the bytes of
  the token where \<open>Buffer\<close> is absent), \<open>encode\<close> with the options \<open>{ compression }\<close>
  returns a token, and \<open>decode\<close> of that token with the same secret returns the value,
  whatever the clock says.
\<close>

theorem encode_decode_roundtrip:
  assumes "platform_ok P" and "validSecret secret" and "json_roundtrips P d"
    and "c \<in> {''none'', ''brotli'', ''lz-string''} \<or> c = ''zlib'' \<and> is_node P"
    and "spreadsFit P d secret (compressionOnly c) w"
  shows "\<exists>tok w'. encode P d secret (compressionOnly c) w = Inr (tok, w')
                \<and> decode P tok secret now = Inr d"
proof -
  have cc: "chosenCompression (compressionOnly c) = c"
    and ca: "chosenAlgorithm (compressionOnly c) = ''aes-gcm-256''"
    by (simp_all add: chosenCompression_def chosenAlgorithm_def compressionOnly_def)
  from assms(1) have s: "services_available P" by (simp add: platform_ok_def)
  from assms(4) have k: "chosenCompression (compressionOnly c) \<in> {''none'', ''lz-string'', ''brotli''}
         \<or> chosenCompression (compressionOnly c) = ''zlib'' \<and> is_node P"
    unfolding cc by auto
  from encode_fits [OF s assms(2) k ca assms(5)] obtain tok w' where
    e: "encode P d secret (compressionOnly c) w = Inr (tok, w')"
    by blast
  from decode_encode_general [OF assms(1,3) e, of now] obtain m w1 where
    m: "createDefaultMetadata (chosenCompression (compressionOnly c))
          (chosenAlgorithm (compressionOnly c)) (includeTimestamp (compressionOnly c))
          (opt_ttl (compressionOnly c)) w1 = (m, w')"
    and r: "decode P tok secret now
            = (if ttl_expired (stored m) now then Inl TokenExpired else Inr d)"
    by blast
  have "timestamp m = None"
    using createDefaultMetadata_fields(5) [OF m] by (simp add: compressionOnly_def)
  then have "\<not> ttl_expired (stored m) now"
    by (simp add: ttl_expired_def truthy_def stored_def)
  with r e show ?thesis by simp
qed

lemma length_drawn: "length (drawn w off n) = n"
  by (simp add: drawn_def)

lemma sealedSize_ref:
  "sealedSize ref_platform (Passphrase p) w pt = 44 + length pt"
  "sealedSize browser_platform (Passphrase p) w pt = 44 + length pt"
  by (simp_all add: sealedSize_def Let_def length_drawn ref_platform_def browser_platform_def
        ref_tag_def sealKey_def split: prod.splits)

theorem encode_decode_roundtrip_witness:
  "platform_ok ref_platform \<and> validSecret (Passphrase ''pw'')
   \<and> json_roundtrips ref_platform (JObj [(''msg'', JStr ''hi'')])
   \<and> is_node ref_platform
   \<and> spreadsFit ref_platform (JObj [(''msg'', JStr ''hi'')]) (Passphrase ''pw'')
        (compressionOnly ''zlib'') ref_world
   \<and> (\<exists>tok w'. encode ref_platform (JObj [(''msg'', JStr ''hi'')]) (Passphrase ''pw'')
                   (compressionOnly ''zlib'') ref_world = Inr (tok, w')
          \<and> decode ref_platform tok (Passphrase ''pw'') 1700000000000
              = Inr (JObj [(''msg'', JStr ''hi'')]))
   \<and> platform_ok browser_platform
   \<and> json_roundtrips browser_platform (JObj [(''msg'', JStr ''hi'')])
   \<and> \<not> has_buffer browser_platform \<and> lzPath browser_platform ''brotli''
   \<and> spreadsFit browser_platform (JObj [(''msg'', JStr ''hi'')]) (Passphrase ''pw'')
        (compressionOnly ''brotli'') ref_world
   \<and> (\<exists>tok w'. encode browser_platform (JObj [(''msg'', JStr ''hi'')]) (Passphrase ''pw'')
                   (compressionOnly ''brotli'') ref_world = Inr (tok, w')
          \<and> decode browser_platform tok (Passphrase ''pw'') 1700000000000
              = Inr (JObj [(''msg'', JStr ''hi'')]))"
proof -
  have n: "is_node ref_platform" "\<not> has_buffer browser_platform" "lzPath browser_platform ''brotli''"
    by (simp_all add: ref_platform_def browser_platform_def lzPath_def)
  have v: "validSecret (Passphrase ''pw'')" by (simp add: validSecret_def)
  have c: "''zlib'' \<in> {''none'', ''brotli'', ''lz-string''} \<or> ''zlib'' = ''zlib'' \<and> is_node ref_platform"
    using n by simp
  have f: "spreadsFit ref_platform (JObj [(''msg'', JStr ''hi'')]) (Passphrase ''pw'')
        (compressionOnly ''zlib'') ref_world"
    by (simp add: spreadsFit_def lzPath_def chosenCompression_def compressionOnly_def
          ref_platform_def)
  have c': "''brotli'' \<in> {''none'', ''brotli'', ''lz-string''}
            \<or> ''brotli'' = ''zlib'' \<and> is_node browser_platform"
    by simp
  have f': "spreadsFit browser_platform (JObj [(''msg'', JStr ''hi'')]) (Passphrase ''pw'')
        (compressionOnly ''brotli'') ref_world"
    unfolding spreadsFit_def sealedSize_ref
    by (simp add: lzPath_def chosenCompression_def compressionOnly_def compress_def
          Brotli_compress_def LZString_compress_def btoa_spread_def
          browser_platform_def ref_platform_def quote_def split: sum.splits)
  show ?thesis
    using encode_decode_roundtrip [OF ref_platform_ok v ref_roundtrips_msg c f,
        of 1700000000000]
      encode_decode_roundtrip [OF browser_platform_ok v browser_roundtrips_msg c' f',
        of 1700000000000]
      ref_platform_ok browser_platform_ok v ref_roundtrips_msg browser_roundtrips_msg n f f'
    by simp
qed

text \<open>
  The claim as stated fails in two places, each with every contract met, a valid secret
  and a JSON-representable value.  In a browser \<open>encode\<close> with zlib returns the error
  ``Zlib compression is only available in Node.js'' and no token.  And on Node.js, with an
  engine that accepts 120000 arguments, \<open>encode\<close> with lz-string of a string of 200000
  characters fails with the \<open>RangeError\<close> of \<open>String.fromCharCode(...data)\<close>.
\<close>

theorem encode_decode_roundtrip_counterexample:
  "platform_ok browser_platform \<and> validSecret (Passphrase ''pw'')
   \<and> json_roundtrips browser_platform (JObj [(''msg'', JStr ''hi'')])
   \<and> encode browser_platform (JObj [(''msg'', JStr ''hi'')]) (Passphrase ''pw'')
        (compressionOnly ''zlib'') ref_world = Inl ZlibNodeOnly
   \<and> platform_ok ref_platform
   \<and> json_roundtrips ref_platform (JStr (replicate 200000 CHR ''a''))
   \<and> encode ref_platform (JStr (replicate 200000 CHR ''a'')) (Passphrase ''pw'')
        (compressionOnly ''lz-string'') ref_world = Inl RangeError"
proof -
  have "encode browser_platform (JObj [(''msg'', JStr ''hi'')]) (Passphrase ''pw'')
        (compressionOnly ''zlib'') ref_world = Inl ZlibNodeOnly"
    by (simp add: encode_def compressionOnly_def compress_def Zlib_compress_def
          browser_platform_def ref_platform_def Let_def)
  moreover have "json_roundtrips ref_platform (JStr (replicate 200000 CHR ''a''))"
    by (simp add: json_roundtrips_def ref_eval)
  moreover have "encode ref_platform (JStr (replicate 200000 CHR ''a'')) (Passphrase ''pw'')
        (compressionOnly ''lz-string'') ref_world = Inl RangeError"
    by (simp add: encode_def compressionOnly_def compress_def LZString_compress_def
          btoa_spread_def stringToBytes_def quote_def ref_platform_def Let_def)
  ultimately show ?thesis
    using browser_platform_ok ref_platform_ok browser_roundtrips_msg
    by (simp add: validSecret_def)
qed

text \<open>
  Beyond that limit the claim is left open.  What the code does there: on the LZ-String
  path a serialised value of more bytes than the engine accepts as arguments makes
  \<open>encode\<close> fail with the \<open>RangeError\<close>, and no other failure is possible for a valid
  secret and one of the compression ids above.
\<close>

lemma encode_spread_overflow:
  assumes "platform_ok P" and "validSecret secret"
    and "c \<in> {''none'', ''brotli'', ''lz-string''} \<or> c = ''zlib'' \<and> is_node P"
  shows "(lzPath P c \<and> spread_limit P < length (TextEncoder_encode P (JSON_stringify P d))
            \<longrightarrow> encode P d secret (compressionOnly c) w = Inl RangeError)
       \<and> ((\<exists>tok w'. encode P d secret (compressionOnly c) w = Inr (tok, w'))
          \<or> encode P d secret (compressionOnly c) w = Inl RangeError
            \<and> \<not> spreadsFit P d secret (compressionOnly c) w)"
proof -
  have cc: "chosenCompression (compressionOnly c) = c"
    and ca: "chosenAlgorithm (compressionOnly c) = ''aes-gcm-256''"
    by (simp_all add: chosenCompression_def chosenAlgorithm_def compressionOnly_def)
  from assms(1) have s: "services_available P" by (simp add: platform_ok_def)
  from assms(3) have k: "chosenCompression (compressionOnly c) \<in> {''none'', ''lz-string'', ''brotli''}
         \<or> chosenCompression (compressionOnly c) = ''zlib'' \<and> is_node P"
    unfolding cc by auto
  have o: "encode P d secret (compressionOnly c) w = Inl RangeError"
    if "lzPath P c" "spread_limit P < length (TextEncoder_encode P (JSON_stringify P d))"
  proof -
    from that have "compress P (TextEncoder_encode P (JSON_stringify P d)) c = Inl RangeError"
      by (auto simp: lzPath_def compress_def Brotli_compress_def LZString_compress_def
            btoa_spread_def)
    then show ?thesis
      by (simp add: encode_def Let_def stringToBytes_def compressionOnly_def)
  qed
  from encode_outcome [OF s assms(2) k ca, of d w] encode_fits [OF s assms(2) k ca, of d w] o
  show ?thesis
    by auto
qed

section \<open>Encoding a stream\<close>

lemma asDecodedChunk_chunkPayload:
  "asDecodedChunk (chunkPayload d m) = Some \<lparr>data = d, meta = m\<rparr>"
  by (simp add: chunkPayload_def)

lemma asDecodedChunk_chunkJson: "asDecodedChunk (chunkJson c) = Some c"
  by (simp add: chunkJson_def asDecodedChunk_chunkPayload)

lemma chunkJson_chunkAt:
  "chunkPayload (string_slice json (i * cs) (min (i * cs + cs) (length json)))
              \<lparr>index = int i, total = int n, chunkId = cid\<rparr>
            = chunkJson (chunkAt json cs n cid i)"
  by (simp add: chunkJson_def chunkAt_def)

lemma encode_noOptions_Inr:
  assumes "platform_ok P" and "json_roundtrips P d"
    and "encode P d secret noOptions w = Inr (tok, w')"
  shows "decode P tok secret now = Inr d"
proof -
  from decode_encode_general [OF assms, of now] obtain m w1 where
    m: "createDefaultMetadata (chosenCompression noOptions) (chosenAlgorithm noOptions)
          (includeTimestamp noOptions) (opt_ttl noOptions) w1 = (m, w')"
    and r: "decode P tok secret now
            = (if ttl_expired (stored m) now then Inl TokenExpired else Inr d)"
    by blast
  have "timestamp m = None"
    using createDefaultMetadata_fields(5) [OF m] by (simp add: noOptions_def)
  then have "\<not> ttl_expired (stored m) now"
    by (simp add: ttl_expired_def truthy_def stored_def)
  with r show ?thesis by simp
qed

lemma encode_noOptions_outcome:
  assumes "platform_ok P" and "validSecret secret"
  shows "(\<exists>tok w'. encode P d secret noOptions w = Inr (tok, w'))
         \<or> encode P d secret noOptions w = Inl RangeError
           \<and> (\<not> is_node P \<and> spread_limit P < length (TextEncoder_encode P (JSON_stringify P d))
              \<or> \<not> has_buffer P)"
proof -
  from assms(1) have s: "services_available P" by (simp add: platform_ok_def)
  have c: "chosenCompression noOptions = ''brotli''" "chosenAlgorithm noOptions = ''aes-gcm-256''"
    by (simp_all add: chosenCompression_def chosenAlgorithm_def noOptions_def)
  have k: "chosenCompression noOptions \<in> {''none'', ''lz-string'', ''brotli''}
         \<or> chosenCompression noOptions = ''zlib'' \<and> is_node P"
    by (simp add: c)
  from encode_outcome [OF s assms(2) k c(2), of d w] show ?thesis
    by (auto simp: c lzPath_def)
qed

lemma encodeChunks_Inr:
  assumes "platform_ok P"
    and "\<forall>i \<in> set is. json_roundtrips P (chunkJson (chunkAt json cs n cid i))"
    and "encodeChunks P json secret noOptions cs n cid is w = Inr (chunks, w')"
  shows "list_all2 (\<lambda>c i. metadata c = meta (chunkAt json cs n cid i)
            \<and> (\<forall>now. decode P (token c) secret now = Inr (chunkJson (chunkAt json cs n cid i))))
           chunks is"
  using assms(2,3)
proof (induction "is" arbitrary: w chunks)
  case Nil
  then show ?case by simp
next
  case (Cons i rest)
  from Cons.prems(2) obtain tok w1 chunks1 where
    e: "encode P (chunkJson (chunkAt json cs n cid i)) secret noOptions w = Inr (tok, w1)"
    and r: "encodeChunks P json secret noOptions cs n cid rest w1 = Inr (chunks1, w')"
    and c: "chunks = \<lparr>token = tok, metadata = meta (chunkAt json cs n cid i)\<rparr> # chunks1"
    by (auto simp: Let_def chunkJson_chunkAt chunkAt_def split: sum.splits prod.splits)
  from Cons.prems(1) have j: "json_roundtrips P (chunkJson (chunkAt json cs n cid i))"
    and j': "\<forall>i \<in> set rest. json_roundtrips P (chunkJson (chunkAt json cs n cid i))"
    by simp_all
  from encode_noOptions_Inr [OF assms(1) j e] Cons.IH [OF j' r] c
  show ?case by simp
qed

lemma encodeChunks_outcome:
  assumes "platform_ok P" and "validSecret secret"
  shows "(\<exists>chunks w'. encodeChunks P json secret noOptions cs n cid is w = Inr (chunks, w'))
         \<or> encodeChunks P json secret noOptions cs n cid is w = Inl RangeError
           \<and> (\<not> is_node P
                \<and> (\<exists>i \<in> set is. spread_limit P < length (chunkBytes P (chunkAt json cs n cid i)))
              \<or> \<not> has_buffer P)"
proof (induction "is" arbitrary: w)
  case Nil
  show ?case by simp
next
  case (Cons i rest)
  from encode_noOptions_outcome [OF assms, of "chunkJson (chunkAt json cs n cid i)" w]
  consider tok w1 where
      "encode P (chunkJson (chunkAt json cs n cid i)) secret noOptions w = Inr (tok, w1)"
    | "encode P (chunkJson (chunkAt json cs n cid i)) secret noOptions w = Inl RangeError"
      "\<not> is_node P \<and> spread_limit P < length (chunkBytes P (chunkAt json cs n cid i))
       \<or> \<not> has_buffer P"
    unfolding chunkBytes_def by blast
  then show ?case
  proof cases
    case 1
    from Cons.IH [of w1] 1 show ?thesis
      by (auto simp: Let_def chunkJson_chunkAt)
  next
    case 2
    then show ?thesis
      by (auto simp: Let_def chunkJson_chunkAt)
  qed
qed

lemma encodeStream_unfold:
  assumes "0 < chunkSize"
  shows "encodeStream P d secret options chunkSize w
         = Some (encodeChunks P (JSON_stringify P d) secret options chunkSize
                   (streamChunkCount P d chunkSize) (fst (generateChunkId P w))
                   [0 ..< streamChunkCount P d chunkSize] (snd (generateChunkId P w)))"
  using assms
  by (simp add: encodeStream_def streamChunkCount_def Let_def split: prod.splits)

lemma generateChunkId_nonempty: "fst (generateChunkId P w) \<noteq> []"
  by (simp add: generateChunkId_def Let_def split: prod.splits)

lemma chunk_count_ceiling:
  fixes len cs :: nat
  assumes "0 < cs"
  defines "n \<equiv> (len + cs - 1) div cs"
  shows "len \<le> n * cs" and "0 < len \<Longrightarrow> (n - 1) * cs < len" and "0 < len \<Longrightarrow> 0 < n"
proof -
  have m: "(len + cs - 1) mod cs < cs" using assms(1) by simp
  have e: "n * cs + (len + cs - 1) mod cs = len + cs - 1"
    unfolding n_def by (simp add: div_mult_mod_eq)
  from e m show "len \<le> n * cs" by linarith
  {
    assume l: "0 < len"
    then have "cs \<le> len + cs - 1" by simp
    then have "0 < (len + cs - 1) div cs" using assms(1) by (simp only: div_greater_zero_iff)
    then show p: "0 < n" unfolding n_def .
    from p have "(n - 1) * cs + cs = n * cs"
      by (cases n) simp_all
    with e l show "(n - 1) * cs < len" by linarith
  }
qed

lemma concat_slices:
  "concat (map (\<lambda>i. string_slice s (i * cs) (min (i * cs + cs) (length s))) [0 ..< n])
   = take (n * cs) s"
proof (induction n)
  case 0
  show ?case by simp
next
  case (Suc n)
  have "string_slice s (n * cs) (min (n * cs + cs) (length s)) = take cs (drop (n * cs) s)"
    by (cases "n * cs \<le> length s") (auto simp: string_slice_def min_def)
  moreover have "Suc n * cs = n * cs + cs" by simp
  then have "take (Suc n * cs) s = take (n * cs) s @ take cs (drop (n * cs) s)"
    by (simp only: take_add)
  ultimately show ?case using Suc by simp
qed

lemma concat_chunk_data:
  assumes "length s \<le> n * cs"
  shows "concat (map data (map (chunkAt s cs n cid) [0 ..< n])) = s"
proof -
  have e: "map data (map (chunkAt s cs n cid) [0 ..< n])
        = map (\<lambda>i. string_slice s (i * cs) (min (i * cs + cs) (length s))) [0 ..< n]"
    by (simp add: chunkAt_def)
  show ?thesis
    unfolding e concat_slices using assms by simp
qed

section \<open>Decoding a stream\<close>

lemma decodeChunks_map:
  assumes "\<forall>c \<in> set chunks. \<forall>t. decode P (token c) secret t = Inr (chunkJson (g c))"
  shows "decodeChunks P secret now i chunks = Inr (map g chunks)"
  using assms
  by (induction chunks arbitrary: i) (simp_all add: asDecodedChunk_chunkJson)

lemma firstGap_chunks:
  "firstGap i (map (chunkAt json cs n cid) [i ..< m]) = None"
proof (induction "m - i" arbitrary: i)
  case 0
  then show ?case by simp
next
  case (Suc k)
  then have "i < m" by simp
  then have u: "[i ..< m] = i # [Suc i ..< m]" by (simp add: upt_conv_Cons)
  from Suc have "k = m - Suc i" by simp
  from Suc.hyps(1) [OF this] show ?case
    unfolding u by (simp add: chunkAt_def)
qed

lemma reassemble_sorted:
  assumes "ds \<noteq> []" and "\<forall>c \<in> set ds. chunkId (meta c) = cid" and "cid \<noteq> []"
    and "sort_key (\<lambda>c. index (meta c)) ds = D"
  shows "reassemble P ds =
           (if int (length D) \<noteq> total (meta (hd D))
            then Inl (IncompleteChunks (total (meta (hd D))) (length D))
            else (case firstGap 0 D of
                    Some i \<Rightarrow> Inl (MissingChunkAt i)
                  | None \<Rightarrow>
                      (case JSON_parse P (concat (map data D)) of
                         None \<Rightarrow> Inl ReassemblyFailed
                       | Some v \<Rightarrow> Inr v)))"
proof -
  from assms(1,2) have h: "chunkId (meta (hd ds)) = cid" by simp
  from assms(2) have nm: "\<not> (\<exists>c \<in> set ds. chunkId (meta c) \<noteq> cid)" by simp
  from assms(1,4) have dn: "D \<noteq> []"
    by (metis length_sort list.size(3) length_0_conv)
  show ?thesis
    unfolding reassemble_def list.case_eq_if Let_def assms(4)
    using assms(1,3) h nm dn by simp
qed

lemma reassemble_permutation:
  assumes "mset ds = mset (map (chunkAt json cs n cid) [0 ..< n])"
    and "0 < n" and "cid \<noteq> []" and "length json \<le> n * cs"
    and "JSON_parse P json = Some d"
  shows "reassemble P ds = Inr d"
proof -
  let ?D = "map (chunkAt json cs n cid) [0 ..< n]"
  let ?f = "\<lambda>c. index (meta c)"
  from assms(1) have st: "set ds = set ?D" by (rule mset_eq_setD)
  from assms(1) have "length ds = length ?D" by (rule mset_eq_length)
  then have ln: "length ds = n" by simp
  have ids: "\<forall>c \<in> set ds. chunkId (meta c) = cid"
    unfolding st by (auto simp: chunkAt_def)
  from ln assms(2) have ne: "ds \<noteq> []" by auto
  have inj: "inj_on ?f (set ds)"
    unfolding st by (auto simp: inj_on_def chunkAt_def)
  have e: "map ?f ?D = map int [0 ..< n]"
    by (simp add: chunkAt_def)
  have "sorted (map int [0 ..< n])"
    by (simp add: sorted_iff_nth_mono)
  then have srt: "sorted (map ?f ?D)" unfolding e .
  have so: "sort_key ?f ds = ?D"
    by (rule sort_key_inj_key_eq [OF assms(1) inj srt])
  from assms(2) have u: "[0 ..< n] = 0 # [1 ..< n]" by (simp add: upt_conv_Cons)
  have hd: "total (meta (hd ?D)) = int n"
    unfolding u by (simp add: chunkAt_def)
  have fg: "firstGap 0 ?D = None" by (rule firstGap_chunks)
  have cc: "concat (map data ?D) = json"
    by (rule concat_chunk_data [OF assms(4)])
  have l: "length ?D = n" by simp
  show ?thesis
    unfolding reassemble_sorted [OF ne ids assms(3) so] hd fg cc l
    using assms(5) by simp
qed

lemma encodeChunks_members:
  assumes "encodeChunks P json secret options cs n cid is w = Inr (chunks, w')"
  shows "\<forall>i \<in> set is. \<exists>w0 tok w1.
           encode P (chunkJson (chunkAt json cs n cid i)) secret options w0 = Inr (tok, w1)"
  using assms
proof (induction "is" arbitrary: w chunks)
  case Nil
  show ?case by simp
next
  case (Cons i rest)
  from Cons.prems obtain tok w1 chunks1 where
    e: "encode P (chunkJson (chunkAt json cs n cid i)) secret options w = Inr (tok, w1)"
    and r: "encodeChunks P json secret options cs n cid rest w1 = Inr (chunks1, w')"
    by (auto simp: Let_def chunkJson_chunkAt split: sum.splits prod.splits)
  from e Cons.IH [OF r] show ?case by auto
qed

lemma encode_oversize:
  assumes "\<not> is_node P" and "spread_limit P < length (TextEncoder_encode P (JSON_stringify P d))"
  shows "encode P d secret noOptions w = Inl RangeError"
proof -
  from assms have "compress P (TextEncoder_encode P (JSON_stringify P d)) ''brotli'' = Inl RangeError"
    by (auto simp: compress_def Brotli_compress_def LZString_compress_def btoa_spread_def)
  then show ?thesis
    by (simp add: encode_def Let_def stringToBytes_def noOptions_def)
qed

lemma encodeStream_oversize:
  assumes "platform_ok P" and "validSecret secret" and "0 < chunkSize"
    and "\<not> is_node P"
    and "\<exists>c \<in> set (streamChunks P d chunkSize w). spread_limit P < length (chunkBytes P c)"
  shows "encodeStream P d secret noOptions chunkSize w = Some (Inl RangeError)"
proof -
  let ?json = "JSON_stringify P d"
  let ?n = "streamChunkCount P d chunkSize"
  let ?cid = "fst (generateChunkId P w)"
  let ?w1 = "snd (generateChunkId P w)"
  from assms(5) obtain i where i: "i \<in> set [0 ..< ?n]"
    and b: "spread_limit P < length (chunkBytes P (chunkAt ?json chunkSize ?n ?cid i))"
    by (auto simp: streamChunks_def)
  have "\<not> (\<exists>chunks w'. encodeChunks P ?json secret noOptions chunkSize ?n ?cid [0 ..< ?n] ?w1
             = Inr (chunks, w'))"
  proof
    assume "\<exists>chunks w'. encodeChunks P ?json secret noOptions chunkSize ?n ?cid [0 ..< ?n] ?w1
             = Inr (chunks, w')"
    then obtain chunks w' where
      "encodeChunks P ?json secret noOptions chunkSize ?n ?cid [0 ..< ?n] ?w1 = Inr (chunks, w')"
      by blast
    from encodeChunks_members [OF this] i obtain w0 tok w1 where
      "encode P (chunkJson (chunkAt ?json chunkSize ?n ?cid i)) secret noOptions w0 = Inr (tok, w1)"
      by blast
    moreover from encode_oversize [OF assms(4) b [unfolded chunkBytes_def]]
    have "encode P (chunkJson (chunkAt ?json chunkSize ?n ?cid i)) secret noOptions w0 = Inl RangeError" .
    ultimately show False by simp
  qed
  with encodeChunks_outcome [OF assms(1,2), of ?json chunkSize ?n ?cid "[0 ..< ?n]" ?w1]
  have "encodeChunks P ?json secret noOptions chunkSize ?n ?cid [0 ..< ?n] ?w1 = Inl RangeError"
    by blast
  then show ?thesis
    unfolding encodeStream_unfold [OF assms(3)] by simp
qed

lemma encodeStream_Inr:
  assumes "platform_ok P" and "0 < chunkSize"
    and "\<forall>c \<in> set (streamChunks P d chunkSize w). json_roundtrips P (chunkJson c)"
    and "encodeStream P d secret noOptions chunkSize w = Some (Inr (chunks, w'))"
  shows "list_all2 (\<lambda>c dc. metadata c = meta dc
            \<and> (\<forall>now. decode P (token c) secret now = Inr (chunkJson dc)))
           chunks (streamChunks P d chunkSize w)"
proof -
  let ?json = "JSON_stringify P d"
  let ?n = "streamChunkCount P d chunkSize"
  let ?cid = "fst (generateChunkId P w)"
  from assms(3) have J: "\<forall>i \<in> set [0 ..< ?n].
      json_roundtrips P (chunkJson (chunkAt ?json chunkSize ?n ?cid i))"
    by (simp add: streamChunks_def)
  from assms(4) have "encodeChunks P ?json secret noOptions chunkSize ?n ?cid [0 ..< ?n]
      (snd (generateChunkId P w)) = Inr (chunks, w')"
    unfolding encodeStream_unfold [OF assms(2)] by simp
  from encodeChunks_Inr [OF assms(1) J this] show ?thesis
    unfolding streamChunks_def list_all2_map2 .
qed

lemma streamChunks_props:
  assumes "0 < chunkSize" and "JSON_stringify P d \<noteq> []"
  shows "0 < length (streamChunks P d chunkSize w)"
    and "length (JSON_stringify P d) \<le> length (streamChunks P d chunkSize w) * chunkSize"
    and "(length (streamChunks P d chunkSize w) - 1) * chunkSize < length (JSON_stringify P d)"
    and "map meta (streamChunks P d chunkSize w)
         = map (\<lambda>i. \<lparr>index = int i, total = int (length (streamChunks P d chunkSize w)),
                      chunkId = fst (generateChunkId P w)\<rparr>)
               [0 ..< length (streamChunks P d chunkSize w)]"
proof -
  have l: "length (streamChunks P d chunkSize w) = streamChunkCount P d chunkSize"
    by (simp add: streamChunks_def)
  from assms(2) have p: "0 < length (JSON_stringify P d)" by simp
  note c = chunk_count_ceiling [OF assms(1), of "length (JSON_stringify P d)"]
  from c(3) [OF p] show "0 < length (streamChunks P d chunkSize w)"
    unfolding l streamChunkCount_def .
  from c(1) show "length (JSON_stringify P d) \<le> length (streamChunks P d chunkSize w) * chunkSize"
    unfolding l streamChunkCount_def .
  from c(2) [OF p]
  show "(length (streamChunks P d chunkSize w) - 1) * chunkSize < length (JSON_stringify P d)"
    unfolding l streamChunkCount_def .
  show "map meta (streamChunks P d chunkSize w)
         = map (\<lambda>i. \<lparr>index = int i, total = int (length (streamChunks P d chunkSize w)),
                      chunkId = fst (generateChunkId P w)\<rparr>)
               [0 ..< length (streamChunks P d chunkSize w)]"
    unfolding l by (simp add: streamChunks_def chunkAt_def)
qed

lemma decodeStream_permutation:
  assumes "list_all2 (\<lambda>c dc. metadata c = meta dc
            \<and> (\<forall>now. decode P (token c) secret now = Inr (chunkJson dc)))
           chunks (streamChunks P d chunkSize w)"
    and "0 < chunkSize" and "JSON_stringify P d \<noteq> []" and "json_roundtrips P d"
    and "mset perm = mset chunks"
  shows "decodeStream P perm secret now = Inr d"
proof -
  let ?json = "JSON_stringify P d"
  let ?n = "streamChunkCount P d chunkSize"
  let ?cid = "fst (generateChunkId P w)"
  let ?D = "map (chunkAt ?json chunkSize ?n ?cid) [0 ..< ?n]"
  define g where "g c = chunkAt ?json chunkSize ?n ?cid (nat (index (metadata c)))"
    for c :: EncodedChunk
  have D: "streamChunks P d chunkSize w = ?D" by (simp add: streamChunks_def)
  from assms(1) have len: "length chunks = ?n"
    by (auto dest: list_all2_lengthD simp: D)
  have nth: "metadata (chunks ! i) = meta (chunkAt ?json chunkSize ?n ?cid i)
      \<and> (\<forall>now. decode P (token (chunks ! i)) secret now
                 = Inr (chunkJson (chunkAt ?json chunkSize ?n ?cid i)))"
    if "i < ?n" for i
    using list_all2_nthD [OF assms(1), of i] that len by (simp add: D)
  have gi: "g (chunks ! i) = chunkAt ?json chunkSize ?n ?cid i" if "i < ?n" for i
    using nth [OF that] by (simp add: g_def chunkAt_def)
  have mg: "map g chunks = ?D"
    by (rule nth_equalityI) (simp_all add: len gi)
  have dec: "\<forall>c \<in> set chunks. \<forall>t. decode P (token c) secret t = Inr (chunkJson (g c))"
  proof
    fix c assume "c \<in> set chunks"
    then obtain i where i: "i < ?n" and c: "c = chunks ! i"
      by (auto simp: in_set_conv_nth len)
    from nth [OF i] gi [OF i] show "\<forall>t. decode P (token c) secret t = Inr (chunkJson (g c))"
      by (simp add: c)
  qed
  from assms(5) have sp: "set perm = set chunks" by (rule mset_eq_setD)
  from dec have "\<forall>c \<in> set perm. \<forall>t. decode P (token c) secret t = Inr (chunkJson (g c))"
    unfolding sp .
  from decodeChunks_map [OF this] have dc: "decodeChunks P secret now 0 perm = Inr (map g perm)" .
  from streamChunks_props(1,2) [OF assms(2,3), of w]
  have n0: "0 < ?n" and nl: "length ?json \<le> ?n * chunkSize"
    by (simp_all add: D)
  from assms(5) have "length perm = length chunks" by (rule mset_eq_length)
  with len n0 have pn: "length perm \<noteq> 0" by simp
  have "mset (map g perm) = image_mset g (mset perm)" by simp
  also have "\<dots> = image_mset g (mset chunks)" by (simp only: assms(5))
  also have "\<dots> = mset (map g chunks)" by simp
  finally have ms: "mset (map g perm) = mset ?D" by (simp only: mg)
  from assms(4) have jp: "JSON_parse P ?json = Some d" by (simp add: json_roundtrips_def)
  have "reassemble P (map g perm) = Inr d"
    by (rule reassemble_permutation [OF ms n0 generateChunkId_nonempty nl jp])
  with dc pn show ?thesis
    by (simp add: decodeStream_def)
qed

text \<open>
  The stream round trip, where it holds.  For every JSON-representable value whose chunk
  payloads are JSON-representable, every valid secret and every positive whole chunk
  size, \<open>encodeStream\<close> with no options returns, and it returns either chunks or the
  engine's \<open>RangeError\<close>.  The chunks are as many as the serialised text divided by the
  chunk size, rounded up, and at least one; the chunk at position \<open>i\<close> carries index
  \<open>i\<close>, the number of chunks as total and the one correlation id of the call; and
  \<open>decodeStream\<close> of any permutation of them, with the same secret and whatever the clock
  says, returns the value.  The \<open>RangeError\<close> can only be outside Node.js with a chunk
  payload of more bytes than the engine accepts as arguments, where it always occurs, or
  where \<open>Buffer\<close> is absent; on Node.js with \<open>Buffer\<close> the chunks are returned.
\<close>

lemma encodeStream_roundtrip:
  assumes "platform_ok P" and "validSecret secret" and "0 < chunkSize"
    and "json_roundtrips P d" and "JSON_stringify P d \<noteq> []"
    and "\<forall>c \<in> set (streamChunks P d chunkSize w). json_roundtrips P (chunkJson c)"
  shows "((\<exists>chunks w'.
             encodeStream P d secret noOptions chunkSize w = Some (Inr (chunks, w'))
           \<and> 0 < length chunks
           \<and> length (JSON_stringify P d) \<le> length chunks * chunkSize
           \<and> (length chunks - 1) * chunkSize < length (JSON_stringify P d)
           \<and> map metadata chunks
               = map (\<lambda>i. \<lparr>index = int i, total = int (length chunks),
                            chunkId = fst (generateChunkId P w)\<rparr>) [0 ..< length chunks]
           \<and> (\<forall>perm now. mset perm = mset chunks
                 \<longrightarrow> decodeStream P perm secret now = Inr d))
          \<or> encodeStream P d secret noOptions chunkSize w = Some (Inl RangeError)
            \<and> (\<not> is_node P
                 \<and> (\<exists>c \<in> set (streamChunks P d chunkSize w).
                       spread_limit P < length (chunkBytes P c))
               \<or> \<not> has_buffer P))
       \<and> (\<not> is_node P
            \<and> (\<exists>c \<in> set (streamChunks P d chunkSize w). spread_limit P < length (chunkBytes P c))
          \<longrightarrow> encodeStream P d secret noOptions chunkSize w = Some (Inl RangeError))
       \<and> (is_node P \<and> has_buffer P
          \<longrightarrow> (\<exists>chunks w'. encodeStream P d secret noOptions chunkSize w
                              = Some (Inr (chunks, w'))))"
proof -
  let ?json = "JSON_stringify P d"
  let ?n = "streamChunkCount P d chunkSize"
  let ?cid = "fst (generateChunkId P w)"
  let ?S = "streamChunks P d chunkSize w"
  have good: "0 < length chunks
           \<and> length ?json \<le> length chunks * chunkSize
           \<and> (length chunks - 1) * chunkSize < length ?json
           \<and> map metadata chunks
               = map (\<lambda>i. \<lparr>index = int i, total = int (length chunks), chunkId = ?cid\<rparr>)
                   [0 ..< length chunks]
           \<and> (\<forall>perm now. mset perm = mset chunks
                 \<longrightarrow> decodeStream P perm secret now = Inr d)"
    if e: "encodeStream P d secret noOptions chunkSize w = Some (Inr (chunks, w'))"
    for chunks w'
  proof -
    note la = encodeStream_Inr [OF assms(1,3,6) e]
    from la have len: "length chunks = length ?S" by (rule list_all2_lengthD)
    have "map metadata chunks = map meta ?S"
    proof (rule nth_equalityI)
      show "length (map metadata chunks) = length (map meta ?S)" by (simp add: len)
    next
      fix i assume "i < length (map metadata chunks)"
      then have "i < length chunks" by simp
      from list_all2_nthD [OF la this] this len
      show "map metadata chunks ! i = map meta ?S ! i" by simp
    qed
    with streamChunks_props [OF assms(3,5), of w] decodeStream_permutation [OF la assms(3,5,4)]
    show ?thesis
      unfolding len by simp
  qed
  have out: "(\<exists>chunks w'. encodeStream P d secret noOptions chunkSize w = Some (Inr (chunks, w')))
         \<or> encodeStream P d secret noOptions chunkSize w = Some (Inl RangeError)
           \<and> (\<not> is_node P \<and> (\<exists>c \<in> set ?S. spread_limit P < length (chunkBytes P c))
              \<or> \<not> has_buffer P)"
    using encodeChunks_outcome [OF assms(1,2), of ?json chunkSize ?n ?cid "[0 ..< ?n]"
        "snd (generateChunkId P w)"]
    unfolding encodeStream_unfold [OF assms(3)] streamChunks_def by auto
  have over: "encodeStream P d secret noOptions chunkSize w = Some (Inl RangeError)"
    if "\<not> is_node P \<and> (\<exists>c \<in> set ?S. spread_limit P < length (chunkBytes P c))"
    using encodeStream_oversize [OF assms(1,2,3)] that by blast
  from good out over show ?thesis
    by blast
qed

lemma ref_generateChunkId: "fst (generateChunkId ref_platform ref_world) = ref_cid"
  by (simp add: generateChunkId_def Date_now_def Math_random36_def ref_platform_def
        ref_world_def ref_cid_def show_int_def Let_def)

lemma ref_stream_chunks:
  "streamChunks ref_platform (JArr [JNum 1, JNum 2, JNum 3]) 3 ref_world
   = [\<lparr>data = ''[1,'', meta = \<lparr>index = 0, total = 3, chunkId = ref_cid\<rparr>\<rparr>,
      \<lparr>data = ''2,3'', meta = \<lparr>index = 1, total = 3, chunkId = ref_cid\<rparr>\<rparr>,
      \<lparr>data = '']'', meta = \<lparr>index = 2, total = 3, chunkId = ref_cid\<rparr>\<rparr>]"
proof -
  have j: "JSON_stringify ref_platform (JArr [JNum 1, JNum 2, JNum 3]) = ''[1,2,3]''"
    by (simp add: ref_platform_def show_int_def)
  have n: "streamChunkCount ref_platform (JArr [JNum 1, JNum 2, JNum 3]) 3 = 3"
    by (simp add: streamChunkCount_def j)
  have u: "[0 ..< 3] = [0, 1, 2 :: nat]"
    by (simp add: upt_conv_Cons)
  show ?thesis
    unfolding streamChunks_def n j ref_generateChunkId u
    by (simp add: chunkAt_def string_slice_def)
qed

lemma encodeStream_roundtrip_example:
  "platform_ok ref_platform \<and> validSecret (Passphrase ''pw'')
   \<and> json_roundtrips ref_platform (JArr [JNum 1, JNum 2, JNum 3])
   \<and> JSON_stringify ref_platform (JArr [JNum 1, JNum 2, JNum 3]) = ''[1,2,3]''
   \<and> (\<forall>c \<in> set (streamChunks ref_platform (JArr [JNum 1, JNum 2, JNum 3]) 3 ref_world).
         json_roundtrips ref_platform (chunkJson c))
   \<and> is_node ref_platform \<and> has_buffer ref_platform
   \<and> (\<exists>chunks w'.
         encodeStream ref_platform (JArr [JNum 1, JNum 2, JNum 3]) (Passphrase ''pw'')
           noOptions 3 ref_world = Some (Inr (chunks, w'))
       \<and> length chunks = 3
       \<and> map metadata chunks
           = [\<lparr>index = 0, total = 3, chunkId = ref_cid\<rparr>,
              \<lparr>index = 1, total = 3, chunkId = ref_cid\<rparr>,
              \<lparr>index = 2, total = 3, chunkId = ref_cid\<rparr>]
       \<and> (\<forall>perm now. mset perm = mset chunks
             \<longrightarrow> decodeStream ref_platform perm (Passphrase ''pw'') now
                   = Inr (JArr [JNum 1, JNum 2, JNum 3])))"
proof -
  have v: "validSecret (Passphrase ''pw'')" by (simp add: validSecret_def)
  have p: "0 < (3 :: nat)" by simp
  have r: "json_roundtrips ref_platform (JArr [JNum 1, JNum 2, JNum 3])"
    by (simp add: json_roundtrips_def ref_eval)
  have j: "JSON_stringify ref_platform (JArr [JNum 1, JNum 2, JNum 3]) = ''[1,2,3]''"
    by (simp add: ref_platform_def show_int_def)
  then have e: "JSON_stringify ref_platform (JArr [JNum 1, JNum 2, JNum 3]) \<noteq> []" by simp
  have c: "\<forall>c \<in> set (streamChunks ref_platform (JArr [JNum 1, JNum 2, JNum 3]) 3 ref_world).
         json_roundtrips ref_platform (chunkJson c)"
    unfolding ref_stream_chunks by (simp add: json_roundtrips_def chunkJson_def ref_eval)
  have n: "is_node ref_platform" "has_buffer ref_platform"
    by (simp_all add: ref_platform_def)
  note T = encodeStream_roundtrip [OF ref_platform_ok v p r e c]
  from T n obtain chunks w' where
    s: "encodeStream ref_platform (JArr [JNum 1, JNum 2, JNum 3]) (Passphrase ''pw'')
           noOptions 3 ref_world = Some (Inr (chunks, w'))"
    and l: "0 < length chunks" "7 \<le> length chunks * 3" "(length chunks - 1) * 3 < 7"
    and m: "map metadata chunks
               = map (\<lambda>i. \<lparr>index = int i, total = int (length chunks), chunkId = ref_cid\<rparr>)
                   [0 ..< length chunks]"
    and d: "\<forall>perm now. mset perm = mset chunks
             \<longrightarrow> decodeStream ref_platform perm (Passphrase ''pw'') now
                   = Inr (JArr [JNum 1, JNum 2, JNum 3])"
    unfolding j ref_generateChunkId by auto
  from l have l3: "length chunks = 3" by arith
  have u: "[0 ..< 3] = [0, 1, 2 :: nat]"
    by (simp add: upt_conv_Cons)
  from m have m3: "map metadata chunks
           = [\<lparr>index = 0, total = 3, chunkId = ref_cid\<rparr>,
              \<lparr>index = 1, total = 3, chunkId = ref_cid\<rparr>,
              \<lparr>index = 2, total = 3, chunkId = ref_cid\<rparr>]"
    unfolding l3 u by simp
  from s l3 m3 d have "\<exists>chunks w'.
         encodeStream ref_platform (JArr [JNum 1, JNum 2, JNum 3]) (Passphrase ''pw'')
           noOptions 3 ref_world = Some (Inr (chunks, w'))
       \<and> length chunks = 3
       \<and> map metadata chunks
           = [\<lparr>index = 0, total = 3, chunkId = ref_cid\<rparr>,
              \<lparr>index = 1, total = 3, chunkId = ref_cid\<rparr>,
              \<lparr>index = 2, total = 3, chunkId = ref_cid\<rparr>]
       \<and> (\<forall>perm now. mset perm = mset chunks
             \<longrightarrow> decodeStream ref_platform perm (Passphrase ''pw'') now
                   = Inr (JArr [JNum 1, JNum 2, JNum 3]))"
    by - (rule exI [of _ chunks], rule exI [of _ w'], intro conjI, assumption+)
  with ref_platform_ok v r j c n show ?thesis
    by (intro conjI) assumption+
qed

lemma ref_payload_length:
  "length x \<le> length (ref_stringify (chunkPayload x m))"
  by (simp add: chunkPayload_def quote_def)

text \<open>
  C4.  The claim says that \<open>encodeStream\<close> returns chunks, which \<open>decodeStream\<close> puts
  together again, for every value, secret and positive chunk size.  Outside Node.js, where
  brotli is LZ-String, the payload of each chunk is spread into the arguments of
  \<open>String.fromCharCode\<close>, and a chunk of more bytes than the engine accepts makes
  \<open>encodeStream\<close> fail.  Here, in a browser whose engine accepts 120000 arguments,
  \<open>encodeStream\<close> of a string of 200000 characters with the chunk size 1048576 (the
  default) has one chunk and fails with the \<open>RangeError\<close>; every contract is met, the
  secret is valid and the value is JSON-representable.
\<close>

theorem encodeStream_spread_overflow:
  "platform_ok browser_platform \<and> validSecret (Passphrase ''pw'')
   \<and> json_roundtrips browser_platform (JStr (replicate 200000 CHR ''a''))
   \<and> encodeStream browser_platform (JStr (replicate 200000 CHR ''a'')) (Passphrase ''pw'')
        noOptions 1048576 ref_world = Some (Inl RangeError)"
proof -
  let ?d = "JStr (replicate 200000 CHR ''a'')"
  have v: "validSecret (Passphrase ''pw'')" by (simp add: validSecret_def)
  have r: "json_roundtrips browser_platform ?d"
    by (simp add: json_roundtrips_def ref_eval)
  have p: "0 < (1048576 :: nat)" by simp
  have b: "\<not> is_node browser_platform" "spread_limit browser_platform = 120000"
    "JSON_stringify browser_platform = ref_stringify"
    by (simp_all add: browser_platform_def ref_platform_def)
  have jl: "length (ref_stringify ?d) = 200002"
    by (simp add: quote_def)
  have n: "streamChunkCount browser_platform ?d 1048576 = 1"
    unfolding streamChunkCount_def b jl by simp
  define c where "c = chunkAt (ref_stringify ?d) 1048576 1 (fst (generateChunkId browser_platform ref_world)) 0"
  have cs: "c \<in> set (streamChunks browser_platform ?d 1048576 ref_world)"
    unfolding streamChunks_def n b c_def by simp
  have "length (data c) = min 1048576 (length (ref_stringify ?d))"
    unfolding c_def chunkAt_def string_slice_def by simp
  then have "length (data c) = 200002"
    unfolding jl by simp
  with ref_payload_length [of "data c" "meta c"]
  have "200002 \<le> length (ref_stringify (chunkJson c))"
    by (simp add: chunkJson_def)
  then have "spread_limit browser_platform < length (chunkBytes browser_platform c)"
    by (simp add: chunkBytes_def browser_platform_def ref_platform_def)
  with cs have x: "\<exists>c \<in> set (streamChunks browser_platform ?d 1048576 ref_world).
      spread_limit browser_platform < length (chunkBytes browser_platform c)"
    by blast
  from encodeStream_oversize [OF browser_platform_ok v p b(1) x] browser_platform_ok v r
  show ?thesis by simp
qed

end
